theory Spec2Isabelle
  imports Main "HOL-Library.Sublist"
begin

section \<open>Python strings\<close>

text \<open>
  A Python \<open>str\<close> is modelled as a \<open>string\<close> whose characters are the code points
  below 256; a \<open>bytes\<close> value is a \<open>string\<close> of bytes. \<open>str.strip()\<close> and the
  regular-expression class \<open>\s\<close> use the same whitespace test, \<open>str.isspace\<close> of one
  character: the code points 9-13, 28-32, 133 and 160 in this range.
\<close>

definition is_space :: "char \<Rightarrow> bool" where
  "is_space c = (of_char c \<in> {9, 10, 11, 12, 13, 28, 29, 30, 31, 32, 133, 160 :: nat})"

definition strip :: "string \<Rightarrow> string" where
  "strip s = rev (dropWhile is_space (rev (dropWhile is_space s)))"

text \<open>\<open>str.lower()\<close>: A-Z and the upper-case letters 192-222 (215 is the
  multiplication sign) move up by 32.\<close>

definition lower_char :: "char \<Rightarrow> char" where
  "lower_char c =
     (let n = of_char c :: nat
      in if (65 \<le> n \<and> n \<le> 90) \<or> (192 \<le> n \<and> n \<le> 222 \<and> n \<noteq> 215)
         then char_of (n + 32) else c)"

definition lower :: "string \<Rightarrow> string" where
  "lower s = map lower_char s"

definition endswith :: "string \<Rightarrow> string \<Rightarrow> bool" where
  "endswith s suf = prefix (rev suf) (rev s)"

text \<open>\<open>s.split(".")[-1]\<close>: the text after the last dot, or all of \<open>s\<close> without one.\<close>

definition split_dot_last :: "string \<Rightarrow> string" where
  "split_dot_last s = rev (takeWhile (\<lambda>c. c \<noteq> CHR ''.'') (rev s))"

text \<open>\<open>os.path.splitext(p)[1]\<close> (posixpath): the extension starts at the last dot of
  the last path component, unless only dots precede that dot in the component.\<close>

definition splitext_ext :: "string \<Rightarrow> string" where
  "splitext_ext p =
     (let base = rev (takeWhile (\<lambda>c. c \<noteq> CHR ''/'') (rev p));
          e = split_dot_last base;
          root = take (length base - length e - 1) base
      in if CHR ''.'' \<in> set base \<and> (\<exists>c \<in> set root. c \<noteq> CHR ''.'')
         then CHR ''.'' # e else [])"

text \<open>\<open>" ".join(parts)\<close>.\<close>

fun join_space :: "string list \<Rightarrow> string" where
  "join_space [] = []"
| "join_space [p] = p"
| "join_space (p # q # ps) = p @ CHR '' '' # join_space (q # ps)"

section \<open>The response sanitizer\<close>

text \<open>
  \<^verbatim>\<open>clean_result = re.sub(r"```(json)?\s*([\s\S]*?)```", r"\2", result).strip()\<close>

  \<open>find_fence s\<close> splits \<open>s\<close> at the first occurrence of three backticks: the lazy
  group \<open>([\s\S]*?)\<close> followed by the closing fence. \<open>sub_fences\<close> is \<open>re.sub\<close> with
  this pattern: scanning from the left, at an opening fence it skips an optional
  \<open>json\<close>, then all whitespace, and looks for the closing fence; when there is one the
  whole match is replaced by group 2 and scanning resumes after the match, otherwise
  the character is kept and scanning resumes one character later. (Giving back some
  of \<open>json\<close> or of the whitespace cannot produce a match that the greedy choice
  misses: none of these characters is a backtick.)
\<close>

definition fence :: string where
  "fence = [CHR 0x60, CHR 0x60, CHR 0x60]"

fun find_fence :: "string \<Rightarrow> (string \<times> string) option" where
  "find_fence [] = None"
| "find_fence (c # cs) =
     (if prefix fence (c # cs) then Some ([], drop 3 (c # cs))
      else (case find_fence cs of None \<Rightarrow> None | Some (a, b) \<Rightarrow> Some (c # a, b)))"

definition skip_json :: "string \<Rightarrow> string" where
  "skip_json s = (if prefix ''json'' s then drop 4 s else s)"

definition match_fence :: "string \<Rightarrow> (string \<times> string) option" where
  "match_fence s =
     (if prefix fence s then find_fence (dropWhile is_space (skip_json (drop 3 s)))
      else None)"

lemma find_fence_length:
  "find_fence s = Some (a, b) \<Longrightarrow> length b < length s"
proof (induction s arbitrary: a b)
  case Nil
  then show ?case by simp
next
  case (Cons c cs)
  then show ?case
    by (auto simp: fence_def split: if_splits option.splits)
qed

lemma match_fence_length:
  assumes "match_fence s = Some (a, b)"
  shows "length b < length s"
proof -
  from assms have p: "prefix fence s"
    and f: "find_fence (dropWhile is_space (skip_json (drop 3 s))) = Some (a, b)"
    by (auto simp: match_fence_def split: if_splits)
  have "length (dropWhile is_space (skip_json (drop 3 s))) \<le> length (skip_json (drop 3 s))"
    by (rule length_dropWhile_le)
  moreover have "length (skip_json (drop 3 s)) \<le> length s"
    by (simp add: skip_json_def)
  ultimately show ?thesis
    using find_fence_length [OF f] by simp
qed

function sub_fences :: "string \<Rightarrow> string" where
  "sub_fences [] = []"
| "sub_fences (c # cs) =
     (case match_fence (c # cs) of
        Some (content, rest) \<Rightarrow> content @ sub_fences rest
      | None \<Rightarrow> c # sub_fences cs)"
  by pat_completeness auto
termination
  by (relation "measure length") (auto dest: match_fence_length)

definition sanitize :: "string \<Rightarrow> string" where
  "sanitize result = strip (sub_fences result)"

section \<open>Values, exceptions and the outside world\<close>

text \<open>The value \<open>json.loads\<close> and \<open>request.get_json\<close> return. A number is modelled by
  an integer: the handler only tests a number's truth value and type.\<close>

datatype json =
    JNull
  | JBool bool
  | JNum int
  | JStr string
  | JArr "json list"
  | JObj "(string \<times> json) list"

text \<open>An exception is a value. \<open>Raised m\<close> is an exception of a library or of the
  remote model, with message \<open>m\<close>.\<close>

datatype pyexn =
    TypeError
  | AttributeError
  | KeyError
  | ValueError
  | OSError
  | Raised string

text \<open>Python's truth value of a parsed JSON value (\<open>not data\<close>).\<close>

fun truthy :: "json \<Rightarrow> bool" where
  "truthy JNull = False"
| "truthy (JBool b) = b"
| "truthy (JNum n) = (n \<noteq> 0)"
| "truthy (JStr s) = (s \<noteq> [])"
| "truthy (JArr xs) = (xs \<noteq> [])"
| "truthy (JObj kvs) = (kvs \<noteq> [])"

text \<open>\<open>key in data\<close>: a key of a dict, an element of a list, a substring of a string;
  a number or a boolean is not iterable.\<close>

fun py_in :: "string \<Rightarrow> json \<Rightarrow> pyexn + bool" where
  "py_in k (JObj kvs) = Inr (map_of kvs k \<noteq> None)"
| "py_in k (JArr xs) = Inr (JStr k \<in> set xs)"
| "py_in k (JStr s) = Inr (sublist k s)"
| "py_in k JNull = Inl TypeError"
| "py_in k (JBool b) = Inl TypeError"
| "py_in k (JNum n) = Inl TypeError"

text \<open>\<open>data[key]\<close> with a string key: only a dict can be indexed by a string.\<close>

fun py_getitem :: "json \<Rightarrow> string \<Rightarrow> pyexn + json" where
  "py_getitem (JObj kvs) k = (case map_of kvs k of None \<Rightarrow> Inl KeyError | Some v \<Rightarrow> Inr v)"
| "py_getitem (JArr xs) k = Inl TypeError"
| "py_getitem (JStr s) k = Inl TypeError"
| "py_getitem JNull k = Inl TypeError"
| "py_getitem (JBool b) k = Inl TypeError"
| "py_getitem (JNum n) k = Inl TypeError"

text \<open>The receiver of \<open>v.strip()\<close> and \<open>v.lower()\<close>: only a string has these
  methods.\<close>

fun str_method :: "json \<Rightarrow> pyexn + string" where
  "str_method (JStr s) = Inr s"
| "str_method JNull = Inl AttributeError"
| "str_method (JBool b) = Inl AttributeError"
| "str_method (JNum n) = Inl AttributeError"
| "str_method (JArr xs) = Inl AttributeError"
| "str_method (JObj kvs) = Inl AttributeError"

text \<open>
  The libraries and services the program calls are parameters: each is a function of
  the bytes or text it is given, returning its result or the exception it raises.
  \<^item> \<open>b64decode\<close>: \<open>base64.b64decode\<close> of a string;
  \<^item> \<open>utf8_decode\<close>: \<open>bytes.decode("utf-8")\<close>;
  \<^item> \<open>read_text\<close>: \<open>open(path, "r", encoding="utf-8").read()\<close>, of the file's bytes;
  \<^item> \<open>pdf_pages\<close>: \<open>pdfplumber.open\<close> and \<open>page.extract_text()\<close> of every page, in
    order (a page without text gives the empty string);
  \<^item> \<open>docx_process\<close>: \<open>docx2txt.process\<close>;
  \<^item> \<open>ocr_readtext\<close>: \<open>Image.open\<close> and \<open>reader.readtext\<close>, the recognised fragments
    \<open>res[1]\<close> in order;
  \<^item> \<open>classify_model\<close>: \<open>Image.open\<close> and the model's reply \<open>response.text\<close> to the
    classification prompt with the image;
  \<^item> \<open>generate_text\<close>: the model's reply to the analysis prompt, which is the fixed
    template with \<open>category_str\<close> and \<open>input_data\<close> filled in;
  \<^item> \<open>generate_image\<close>: the same for \<open>[prompt, input_data]\<close>;
  \<^item> \<open>json_loads\<close>: \<open>json.loads\<close>;
  \<^item> \<open>tmp_stem\<close>: directory, prefix and random part of the n-th temporary file name.
\<close>

record env =
  b64decode :: "string \<Rightarrow> pyexn + string"
  utf8_decode :: "string \<Rightarrow> pyexn + string"
  read_text :: "string \<Rightarrow> pyexn + string"
  pdf_pages :: "string \<Rightarrow> pyexn + string list"
  docx_process :: "string \<Rightarrow> pyexn + string"
  ocr_readtext :: "string \<Rightarrow> pyexn + string list"
  classify_model :: "string \<Rightarrow> pyexn + string"
  generate_text :: "string \<Rightarrow> string \<Rightarrow> pyexn + string"
  generate_image :: "string \<Rightarrow> string \<Rightarrow> pyexn + string"
  json_loads :: "string \<Rightarrow> pyexn + json"
  tmp_stem :: "nat \<Rightarrow> string"

text \<open>
  The state a request can change: the files on disk (path to bytes) and the number of
  temporary names handed out. \<open>calls\<close> is a log of the calls the handler makes to the
  decoder, the extractors, the classifier and the analyzer, oldest first; the program
  does not read it.
\<close>

datatype event =
    B64Decode
  | ExtractFile string
  | ExtractImage string
  | ClassifyImage string
  | Analyze string "string option"

record world =
  fs :: "string \<rightharpoonup> string"
  tmp_count :: nat
  calls :: "event list"

definition log_call :: "event \<Rightarrow> world \<Rightarrow> world" where
  "log_call ev w = w\<lparr>calls := calls w @ [ev]\<rparr>"

text \<open>The last component of a path, and the number of bytes of a string in UTF-8
  (a code point below 128 takes one byte, the others of this range two).\<close>

definition file_name :: "string \<Rightarrow> string" where
  "file_name p = rev (takeWhile (\<lambda>c. c \<noteq> CHR ''/'') (rev p))"

definition utf8_length :: "string \<Rightarrow> nat" where
  "utf8_length s = sum_list (map (\<lambda>c. if (of_char c :: nat) < 128 then 1 else 2) s)"

text \<open>\<open>tempfile.NamedTemporaryFile(delete=False, suffix=sfx)\<close>: a new empty file whose
  name ends with the suffix. Opening the name raises \<open>ValueError\<close> when the suffix
  holds a null character, and \<open>OSError\<close> when it holds a path separator (the
  directory named before it does not exist) or when the file name is longer than 255
  bytes.\<close>

definition named_temporary_file :: "env \<Rightarrow> world \<Rightarrow> string \<Rightarrow> pyexn + (string \<times> world)" where
  "named_temporary_file env w sfx =
     (let p = tmp_stem env (tmp_count w) @ sfx
      in if CHR 0x00 \<in> set sfx then Inl ValueError
         else if CHR ''/'' \<in> set sfx then Inl OSError
         else if 255 < utf8_length (file_name p) then Inl OSError
         else Inr (p, w\<lparr>fs := (fs w)(p \<mapsto> []), tmp_count := Suc (tmp_count w)\<rparr>))"

definition write_file :: "string \<Rightarrow> string \<Rightarrow> world \<Rightarrow> world" where
  "write_file p bytes w = w\<lparr>fs := (fs w)(p \<mapsto> bytes)\<rparr>"

text \<open>\<open>os.remove(path)\<close>.\<close>

definition os_remove :: "string \<Rightarrow> world \<Rightarrow> pyexn + world" where
  "os_remove p w =
     (case fs w p of None \<Rightarrow> Inl OSError
      | Some bytes \<Rightarrow> Inr (w\<lparr>fs := (fs w)(p := None)\<rparr>))"

text \<open>Opening a path for reading gives the file's bytes; the extractors and the
  classifier read the disk and change nothing.\<close>

definition open_file :: "(string \<rightharpoonup> string) \<Rightarrow> string \<Rightarrow> pyexn + string" where
  "open_file disk p = (case disk p of None \<Rightarrow> Inl OSError | Some bytes \<Rightarrow> Inr bytes)"

section \<open>The extractors, the classifier and the analyzer\<close>

text \<open>The page loop of \<open>extract_text_from_file\<close>:
  \<^verbatim>\<open>for page in pdf.pages: page_text = page.extract_text(); if page_text: text += page_text + "\n"\<close>\<close>

fun pdf_loop :: "string \<Rightarrow> string list \<Rightarrow> string" where
  "pdf_loop text [] = text"
| "pdf_loop text (page_text # pages) =
     pdf_loop (if page_text \<noteq> [] then text @ page_text @ [CHR 0x0A] else text) pages"

definition extract_text_from_file ::
  "env \<Rightarrow> (string \<rightharpoonup> string) \<Rightarrow> string \<Rightarrow> pyexn + string" where
  "extract_text_from_file env disk upload_file =
     (let ext = lower upload_file
      in if endswith ext ''.txt'' then
           (case open_file disk upload_file of Inl e \<Rightarrow> Inl e
            | Inr bytes \<Rightarrow>
                (case read_text env bytes of Inl e \<Rightarrow> Inl e
                 | Inr text \<Rightarrow> Inr (strip text)))
         else if endswith ext ''.pdf'' then
           (case open_file disk upload_file of Inl e \<Rightarrow> Inl e
            | Inr bytes \<Rightarrow>
                (case pdf_pages env bytes of Inl e \<Rightarrow> Inl e
                 | Inr pages \<Rightarrow> Inr (strip (pdf_loop [] pages))))
         else if endswith ext ''.docx'' then
           (case open_file disk upload_file of Inl e \<Rightarrow> Inl e
            | Inr bytes \<Rightarrow>
                (case docx_process env bytes of Inl e \<Rightarrow> Inl e
                 | Inr text \<Rightarrow> Inr (strip text)))
         else Inr (strip []))"

definition extract_text_from_image ::
  "env \<Rightarrow> (string \<rightharpoonup> string) \<Rightarrow> string \<Rightarrow> pyexn + string" where
  "extract_text_from_image env disk uploaded_image =
     (case open_file disk uploaded_image of Inl e \<Rightarrow> Inl e
      | Inr bytes \<Rightarrow>
          (case ocr_readtext env bytes of Inl e \<Rightarrow> Inl e
           | Inr results \<Rightarrow> Inr (strip (join_space results))))"

definition classify_image_with_gemini ::
  "env \<Rightarrow> (string \<rightharpoonup> string) \<Rightarrow> string \<Rightarrow> pyexn + string" where
  "classify_image_with_gemini env disk uploaded_image =
     (case open_file disk uploaded_image of Inl e \<Rightarrow> Inl e
      | Inr bytes \<Rightarrow>
          (case classify_model env bytes of Inl e \<Rightarrow> Inl e
           | Inr text \<Rightarrow> Inr (strip text)))"

text \<open>The clause \<open>analyze_grievance\<close> puts into the prompt for a category override;
  \<open>if category_override:\<close> is false for \<open>None\<close> and for the empty string.\<close>

definition category_note :: "string \<Rightarrow> string" where
  "category_note c =
     CHR 0x0A # ''        NOTE: The image was classified as **'' @ c @ ''**. '' @
     CHR 0x0A # ''        Consider this as the complaint category even if no text is available.'' @
     CHR 0x0A # ''        ''"

definition analyze_grievance :: "env \<Rightarrow> string \<Rightarrow> string \<Rightarrow> string option \<Rightarrow> pyexn + string" where
  "analyze_grievance env input_data input_type category_override =
     (let category_str =
            (case category_override of None \<Rightarrow> []
             | Some c \<Rightarrow> if c \<noteq> [] then category_note c else [])
      in if input_type = ''image'' then generate_image env category_str input_data
         else generate_text env category_str input_data)"

section \<open>The request handler\<close>

record upload =
  filename :: string
  content :: string

text \<open>The parts of the Flask request the handler reads: \<open>http_method\<close> is
  \<open>request.method\<close>, \<open>get_json\<close> is the result of
  \<open>request.get_json(silent=True)\<close> (\<open>None\<close> when the body does not parse), \<open>files\<close> the
  uploaded parts by field name, \<open>data\<close> the raw body.\<close>

record request =
  http_method :: string
  is_json :: bool
  get_json :: "json option"
  files :: "(string \<times> upload) list"
  data :: string

text \<open>A response is \<open>jsonify(body)\<close> with a status; the four bodies the handler builds:
  \<^item> \<open>ErrorLiteral m\<close>: \<^verbatim>\<open>{"error": m}\<close> for a literal \<open>m\<close>;
  \<^item> \<open>ErrorStr e\<close>: \<^verbatim>\<open>{"error": str(e)}\<close>;
  \<^item> \<open>ParseFailed c e\<close>:
    \<^verbatim>\<open>{"error": "Failed to parse JSON", "raw_response": c, "exception": str(e)}\<close>;
  \<^item> \<open>Parsed v\<close>: the parsed value itself.\<close>

datatype body =
    ErrorLiteral string
  | ErrorStr pyexn
  | ParseFailed string pyexn
  | Parsed json

datatype response = Response body nat

text \<open>How a block of the handler ends: an exception propagates, the handler returns,
  or control goes on with a value.\<close>

datatype 'a flow = Raise pyexn | Return response | Next 'a

text \<open>The test \<open>"text" in data and data["text"].strip()\<close>, giving \<open>data["text"]\<close> when
  it holds.\<close>

definition json_text :: "json \<Rightarrow> pyexn + string option" where
  "json_text d =
     (case py_in ''text'' d of Inl e \<Rightarrow> Inl e
      | Inr False \<Rightarrow> Inr None
      | Inr True \<Rightarrow>
          (case py_getitem d ''text'' of Inl e \<Rightarrow> Inl e
           | Inr v \<Rightarrow>
               (case str_method v of Inl e \<Rightarrow> Inl e
                | Inr t \<Rightarrow> Inr (if strip t \<noteq> [] then Some t else None))))"

text \<open>The test \<open>"file" in data and "file_type" in data\<close>.\<close>

definition json_has_file :: "json \<Rightarrow> pyexn + bool" where
  "json_has_file d =
     (case py_in ''file'' d of Inl e \<Rightarrow> Inl e
      | Inr False \<Rightarrow> Inr False
      | Inr True \<Rightarrow> py_in ''file_type'' d)"

text \<open>\<open>base64.b64decode(data["file"])\<close>: the argument must be a string.\<close>

definition json_b64decode :: "env \<Rightarrow> json \<Rightarrow> pyexn + string" where
  "json_b64decode env v = (case v of JStr s \<Rightarrow> b64decode env s | _ \<Rightarrow> Inl TypeError)"

text \<open>
  The branch on the extension, which both file shapes have; \<open>text_exts\<close> is the list
  of the first test (it differs between the two shapes). The result is
  \<open>(grievance_text, category_override)\<close>, which start as \<open>""\<close> and \<open>None\<close>.
\<close>

definition extract_content ::
  "env \<Rightarrow> world \<Rightarrow> string list \<Rightarrow> string \<Rightarrow> string \<Rightarrow> (pyexn + string \<times> string option) \<times> world" where
  "extract_content env w text_exts ext tmp_path =
     (if ext \<in> set text_exts then
        (let w1 = log_call (ExtractFile tmp_path) w
         in case extract_text_from_file env (fs w1) tmp_path of
              Inl e \<Rightarrow> (Inl e, w1)
            | Inr text \<Rightarrow> (Inr (text, None), w1))
      else if ext \<in> set [''jpg'', ''jpeg'', ''png''] then
        (let w1 = log_call (ExtractImage tmp_path) w
         in case extract_text_from_image env (fs w1) tmp_path of
              Inl e \<Rightarrow> (Inl e, w1)
            | Inr text \<Rightarrow>
                if strip text = [] then
                  (let w2 = log_call (ClassifyImage tmp_path) w1
                   in case classify_image_with_gemini env (fs w2) tmp_path of
                        Inl e \<Rightarrow> (Inl e, w2)
                      | Inr label \<Rightarrow> (Inr (''No text provided'', Some label), w2))
                else (Inr (text, None), w1))
      else (Inr ([], None), w))"

text \<open>The extraction followed by \<open>os.remove(tmp_path)\<close>: the removal is the statement
  after the branch, so an exception in the branch leaves the handler before it.\<close>

definition extract_then_remove ::
  "env \<Rightarrow> world \<Rightarrow> string list \<Rightarrow> string \<Rightarrow> string \<Rightarrow> (pyexn + string \<times> string option) \<times> world" where
  "extract_then_remove env w text_exts ext tmp_path =
     (case extract_content env w text_exts ext tmp_path of
        (Inl e, w1) \<Rightarrow> (Inl e, w1)
      | (Inr r, w1) \<Rightarrow>
          (case os_remove tmp_path w1 of Inl e \<Rightarrow> (Inl e, w1) | Inr w2 \<Rightarrow> (Inr r, w2)))"

text \<open>Lines 143-156: the base64 file of a JSON request.\<close>

definition json_file_branch ::
  "env \<Rightarrow> world \<Rightarrow> json \<Rightarrow> (pyexn + string \<times> string option) \<times> world" where
  "json_file_branch env w d =
     (case py_getitem d ''file'' of Inl e \<Rightarrow> (Inl e, w)
      | Inr f \<Rightarrow>
          (let w0 = log_call B64Decode w
           in case json_b64decode env f of Inl e \<Rightarrow> (Inl e, w0)
              | Inr file_bytes \<Rightarrow>
                  (case py_getitem d ''file_type'' of Inl e \<Rightarrow> (Inl e, w0)
                   | Inr ft \<Rightarrow>
                       (case str_method ft of Inl e \<Rightarrow> (Inl e, w0)
                        | Inr ft_str \<Rightarrow>
                            (let file_ext = lower ft_str
                             in case named_temporary_file env w0 (CHR ''.'' # file_ext) of
                                  Inl e \<Rightarrow> (Inl e, w0)
                                | Inr (tmp_path, w1) \<Rightarrow>
                                    extract_then_remove env (write_file tmp_path file_bytes w1)
                                      [''pdf'', ''docx'', ''doc'', ''txt''] file_ext tmp_path)))))"

text \<open>Lines 160-172: the multipart upload. \<open>if uploaded_file:\<close> is the truth value of a
  werkzeug \<open>FileStorage\<close>, which is that of its file name.\<close>

definition multipart_branch ::
  "env \<Rightarrow> world \<Rightarrow> request \<Rightarrow> (pyexn + string \<times> string option) \<times> world" where
  "multipart_branch env w req =
     (case map_of (files req) ''file'' of None \<Rightarrow> (Inr ([], None), w)
      | Some uploaded_file \<Rightarrow>
          if filename uploaded_file = [] then (Inr ([], None), w)
          else
            (case named_temporary_file env w (splitext_ext (filename uploaded_file)) of
               Inl e \<Rightarrow> (Inl e, w)
             | Inr (tmp_path, w1) \<Rightarrow>
                 (let w2 = write_file tmp_path (content uploaded_file) w1;
                      ext = lower (split_dot_last (filename uploaded_file))
                  in extract_then_remove env w2 [''pdf'', ''docx'', ''txt''] ext tmp_path)))"

text \<open>Lines 133-172: cases 1 and 2.\<close>

definition resolve_shape ::
  "env \<Rightarrow> world \<Rightarrow> request \<Rightarrow> (string \<times> string option) flow \<times> world" where
  "resolve_shape env w req =
     (if is_json req then
        (case get_json req of
           None \<Rightarrow> (Return (Response (ErrorLiteral ''Invalid JSON'') 400), w)
         | Some d \<Rightarrow>
             if \<not> truthy d then (Return (Response (ErrorLiteral ''Invalid JSON'') 400), w)
             else
               (case json_text d of Inl e \<Rightarrow> (Raise e, w)
                | Inr (Some t) \<Rightarrow> (Next (t, None), w)
                | Inr None \<Rightarrow>
                    (case json_has_file d of Inl e \<Rightarrow> (Raise e, w)
                     | Inr False \<Rightarrow> (Next ([], None), w)
                     | Inr True \<Rightarrow>
                         (case json_file_branch env w d of
                            (Inl e, w1) \<Rightarrow> (Raise e, w1)
                          | (Inr r, w1) \<Rightarrow> (Next r, w1)))))
      else if files req \<noteq> [] then
        (case multipart_branch env w req of
           (Inl e, w1) \<Rightarrow> (Raise e, w1)
         | (Inr r, w1) \<Rightarrow> (Next r, w1))
      else (Next ([], None), w))"

text \<open>Lines 175-181: case 3, the raw body, with its own handler for a failed decode.\<close>

definition raw_body_fallback :: "env \<Rightarrow> request \<Rightarrow> string \<Rightarrow> string" where
  "raw_body_fallback env req grievance_text =
     (if grievance_text = [] then
        (case utf8_decode env (data req) of Inl e \<Rightarrow> grievance_text
         | Inr decoded \<Rightarrow>
             (let raw_text = strip decoded
              in if raw_text \<noteq> [] then raw_text else grievance_text))
      else grievance_text)"

text \<open>Lines 183-196: the analysis, the sanitizer and the parse with its own handler.\<close>

definition analyze_and_respond ::
  "env \<Rightarrow> world \<Rightarrow> string \<Rightarrow> string option \<Rightarrow> (pyexn + response) \<times> world" where
  "analyze_and_respond env w grievance_text category_override =
     (if grievance_text = [] then
        (Inr (Response (ErrorLiteral ''No text or file provided'') 400), w)
      else
        (let w1 = log_call (Analyze grievance_text category_override) w
         in case analyze_grievance env grievance_text ''text'' category_override of
              Inl e \<Rightarrow> (Inl e, w1)
            | Inr result \<Rightarrow>
                (let clean_result = sanitize result
                 in case json_loads env clean_result of
                      Inl e \<Rightarrow> (Inr (Response (ParseFailed clean_result e) 200), w1)
                    | Inr parsed \<Rightarrow> (Inr (Response (Parsed parsed) 200), w1))))"

text \<open>The body of the outer \<open>try\<close>.\<close>

definition handle_post :: "env \<Rightarrow> world \<Rightarrow> request \<Rightarrow> (pyexn + response) \<times> world" where
  "handle_post env w req =
     (case resolve_shape env w req of
        (Raise e, w1) \<Rightarrow> (Inl e, w1)
      | (Return r, w1) \<Rightarrow> (Inr r, w1)
      | (Next (grievance_text, category_override), w1) \<Rightarrow>
          analyze_and_respond env w1 (raw_body_fallback env req grievance_text) category_override)"

definition redtape_reducer :: "env \<Rightarrow> world \<Rightarrow> request \<Rightarrow> response \<times> world" where
  "redtape_reducer env w req =
     (if http_method req \<noteq> ''POST'' then (Response (ErrorLiteral ''Only POST allowed'') 405, w)
      else
        (case handle_post env w req of
           (Inl e, w1) \<Rightarrow> (Response (ErrorStr e) 500, w1)
         | (Inr r, w1) \<Rightarrow> (r, w1)))"

section \<open>Concrete requests\<close>

text \<open>
  An environment, a start state and requests on which the handler is evaluated below.
  The environment agrees with the real libraries on the inputs used: the base64 text
  \<open>aGVsbG8=\<close> decodes to \<open>hello\<close>, \<open>Ymxhbms=\<close> to \<open>blank\<close> and the empty text to no
  bytes; the byte 255 is never valid UTF-8 and ASCII bytes decode to themselves;
  \<open>hello\<close> is neither a PDF nor a DOCX file. Three byte strings stand for files:
  \<open>blank\<close> for a picture without legible text, \<open>three pages\<close> for a PDF whose second
  page has no text, \<open>letter\<close> for a DOCX document. The model answers with a fenced
  JSON object, with prose for the grievance \<open>prose\<close>, and is unreachable for the
  grievance \<open>down\<close>.
\<close>

definition demo_env :: env where
  "demo_env =
     \<lparr> b64decode = (\<lambda>s. if s = [] then Inr [] else if s = ''aGVsbG8='' then Inr ''hello''
                          else if s = ''Ymxhbms='' then Inr ''blank''
                          else Inl (Raised ''Incorrect padding'')),
       utf8_decode = (\<lambda>b. if CHR 0xFF \<in> set b then Inl (Raised ''invalid start byte'') else Inr b),
       read_text = (\<lambda>b. if CHR 0xFF \<in> set b then Inl (Raised ''invalid start byte'') else Inr b),
       pdf_pages = (\<lambda>b. if b = ''three pages'' then Inr ['' Road broken'', [], ''near school '']
                          else Inl (Raised ''No /Root object! - Is this really a PDF?'')),
       docx_process = (\<lambda>b. if b = ''letter'' then Inr ('' Dear Sir '' @ [CHR 0x0A])
                             else Inl (Raised ''File is not a zip file'')),
       ocr_readtext = (\<lambda>b. if b = ''blank'' then Inr []
                             else Inl (Raised ''cannot identify image file'')),
       classify_model = (\<lambda>b. if b = ''blank'' then Inr ''flood / water logging''
                               else Inl (Raised ''cannot identify image file'')),
       generate_text = (\<lambda>c t. if t = ''prose'' then Inr ''Sorry, I cannot help.''
                                else if t = ''down'' then Inl (Raised ''503 Service Unavailable'')
                                else Inr (fence @ ''json'' @ [CHR 0x0A] @ ''{}'' @ [CHR 0x0A] @ fence)),
       generate_image = (\<lambda>c t. Inl (Raised ''503 Service Unavailable'')),
       json_loads = (\<lambda>s. if s = ''{}'' then Inr (JObj [])
                           else Inl (Raised ''Expecting value: line 1 column 1 (char 0)'')),
       tmp_stem = (\<lambda>n. ''/tmp/tmp'' @ replicate (Suc n) (CHR ''a'')) \<rparr>"

definition demo_world :: world where
  "demo_world = \<lparr> fs = Map.empty, tmp_count = 0, calls = [] \<rparr>"

text \<open>A string in double quotes, for a raw JSON body.\<close>

definition quoted :: "string \<Rightarrow> string" where
  "quoted s = CHR 0x22 # s @ [CHR 0x22]"

text \<open>A JSON request with the given object and raw body.\<close>

definition json_request :: "(string \<times> json) list \<Rightarrow> string \<Rightarrow> request" where
  "json_request kvs body =
     \<lparr> http_method = ''POST'', is_json = True, get_json = Some (JObj kvs), files = [],
       data = body \<rparr>"

text \<open>A multipart request with one part \<open>file\<close>; its raw body is empty, the form
  parser having consumed it.\<close>

definition multipart_request :: "string \<Rightarrow> string \<Rightarrow> request" where
  "multipart_request name bytes =
     \<lparr> http_method = ''POST'', is_json = False, get_json = None,
       files = [(''file'', \<lparr> filename = name, content = bytes \<rparr>)], data = [] \<rparr>"

text \<open>A request with a raw body only.\<close>

definition raw_request :: "string \<Rightarrow> request" where
  "raw_request body =
     \<lparr> http_method = ''POST'', is_json = False, get_json = None, files = [], data = body \<rparr>"

text \<open>The raw body of a JSON request with an empty base64 file.\<close>

definition empty_file_body :: string where
  "empty_file_body =
     ''{'' @ quoted ''file'' @ '': '' @ quoted [] @ '', '' @ quoted ''file_type'' @ '': '' @
     quoted ''txt'' @ ''}''"


text \<open>A JSON request with a base64 text file.\<close>

definition file_only_request :: request where
  "file_only_request =
     json_request [(''file'', JStr ''aGVsbG8=''), (''file_type'', JStr ''txt'')] []"

text \<open>A JSON request whose body is the number 5.\<close>

definition number_request :: request where
  "number_request =
     \<lparr> http_method = ''POST'', is_json = True, get_json = Some (JNum 5), files = [],
       data = ''5'' \<rparr>"

text \<open>The raw body of a JSON request with a \<open>file\<close> key only.\<close>

definition lone_file_body :: string where
  "lone_file_body = ''{'' @ quoted ''file'' @ '': '' @ quoted ''aGVsbG8='' @ ''}''"

text \<open>A disk with a text file, a PDF, a DOCX document, a file that is no PDF and
  a \<open>.doc\<close> file.\<close>

definition demo_disk :: "string \<rightharpoonup> string" where
  "demo_disk =
     [''/tmp/a.TXT'' \<mapsto> ''  hello '' @ [CHR 0x0A], ''/tmp/b.pdf'' \<mapsto> ''three pages'',
      ''/tmp/c.Docx'' \<mapsto> ''letter'', ''/tmp/d.pdf'' \<mapsto> ''hello'', ''/tmp/e.doc'' \<mapsto> ''hello'']"

text \<open>A JSON request with a base64 picture without legible text.\<close>

definition blank_image_request :: request where
  "blank_image_request =
     json_request [(''file'', JStr ''Ymxhbms=''), (''file_type'', JStr ''PNG'')] []"

section \<open>The sanitizer: fences, idempotence\<close>

text \<open>
  \<open>fence_count k s\<close> counts the fences a left-to-right scan completes in \<open>s\<close> when
  \<open>k\<close> backticks precede it: the number of disjoint fences in \<open>s\<close>. A string with at
  most one has no match of the pattern.
\<close>

fun fence_count :: "nat \<Rightarrow> string \<Rightarrow> nat" where
  "fence_count k [] = 0"
| "fence_count k (c # cs) =
     (if c = CHR 0x60 then (if 2 \<le> k then Suc (fence_count 0 cs) else fence_count (Suc k) cs)
      else fence_count 0 cs)"

text \<open>With \<open>k\<close> backticks before it, \<open>s\<close> completes no fence within its first two
  characters.\<close>

definition no_early_fence :: "nat \<Rightarrow> string \<Rightarrow> bool" where
  "no_early_fence k s = (fence_count k (take 2 s) = 0)"

lemma is_space_not_backtick: "is_space c \<Longrightarrow> c \<noteq> CHR 0x60"
  by (auto simp: is_space_def)

lemma fence_count_mono:
  "fence_count 0 s \<le> fence_count (Suc 0) s \<and> fence_count (Suc 0) s \<le> fence_count 2 s \<and> fence_count 2 s \<le> Suc (fence_count 0 s)"
  by (induction s) (auto simp: numeral_2_eq_2)

lemma fence_count_zero_le: "fence_count 0 s \<le> fence_count k s"
proof (cases "k = 0 \<or> k = 1 \<or> k = 2")
  case True
  then show ?thesis using fence_count_mono [of s] by auto
next
  case False
  then have k: "2 \<le> k" by arith
  have "fence_count k s = fence_count 2 s"
    using k by (cases s) auto
  then show ?thesis using fence_count_mono [of s] by auto
qed

lemma fence_count_append_le: "fence_count k a \<le> fence_count k (a @ b)"
  by (induction a arbitrary: k) auto

lemma fence_count_short: "length s \<le> 2 \<Longrightarrow> fence_count 0 s = 0"
  by (cases s; cases "tl s") (auto split: if_splits)

lemma no_early_fence_zero: "no_early_fence 0 s"
  by (simp add: no_early_fence_def fence_count_short)

lemma no_early_fence_prefix: "prefix fence s \<Longrightarrow> no_early_fence k s \<Longrightarrow> k = 0"
  by (auto simp: no_early_fence_def fence_def prefix_def split: if_splits)

lemma no_early_fence_step:
  assumes "no_early_fence k (c # cs)" "\<not> prefix fence (c # cs)"
  shows "fence_count k (c # z) = fence_count (if c = CHR 0x60 then Suc k else 0) z"
    and "no_early_fence (if c = CHR 0x60 then Suc k else 0) cs"
proof -
  show "fence_count k (c # z) = fence_count (if c = CHR 0x60 then Suc k else 0) z"
    using assms(1) by (auto simp: no_early_fence_def split: if_splits)
  show "no_early_fence (if c = CHR 0x60 then Suc k else 0) cs"
  proof (cases "c = CHR 0x60")
    case False
    then show ?thesis by (simp add: no_early_fence_zero)
  next
    case True
    with assms(1) have k: "k < 2" and c1: "fence_count (Suc k) (take 1 cs) = 0"
      by (auto simp: no_early_fence_def take_Suc_Cons numeral_2_eq_2 split: if_splits)
    show ?thesis
    proof (cases cs)
      case Nil
      then show ?thesis using True by (simp add: no_early_fence_def)
    next
      case (Cons d ds)
      show ?thesis
      proof (cases ds)
        case Nil
        then show ?thesis using True Cons c1 by (simp add: no_early_fence_def)
      next
        case (Cons e es)
        then show ?thesis
          using True \<open>cs = d # ds\<close> c1 k assms(2)
          by (auto simp: no_early_fence_def fence_def numeral_2_eq_2 split: if_splits)
      qed
    qed
  qed
qed

lemma find_fence_split: "find_fence s = Some (a, b) \<Longrightarrow> s = a @ fence @ b"
proof (induction s arbitrary: a b)
  case Nil
  then show ?case by simp
next
  case (Cons c cs)
  show ?case
  proof (cases "prefix fence (c # cs)")
    case True
    with Cons.prems have "a = []" "b = drop 3 (c # cs)" by auto
    moreover from True have "c # cs = fence @ drop 3 (c # cs)"
      by (auto simp: prefix_def fence_def)
    ultimately show ?thesis by simp
  next
    case False
    with Cons.prems obtain a' where "find_fence cs = Some (a', b)" "a = c # a'"
      by (auto split: option.splits)
    with Cons.IH show ?thesis by simp
  qed
qed

lemma find_fence_fence_count:
  "find_fence s = Some (a, b) \<Longrightarrow> no_early_fence k s \<Longrightarrow> fence_count k (a @ z) = fence_count 0 z"
proof (induction s arbitrary: a k)
  case Nil
  then show ?case by simp
next
  case (Cons c cs)
  show ?case
  proof (cases "prefix fence (c # cs)")
    case True
    with Cons.prems show ?thesis using no_early_fence_prefix [OF True] by auto
  next
    case False
    with Cons.prems obtain a' where f: "find_fence cs = Some (a', b)" and a: "a = c # a'"
      by (auto split: option.splits)
    from no_early_fence_step [OF Cons.prems(2) False]
    have "fence_count k (c # a' @ z) = fence_count (if c = CHR 0x60 then Suc k else 0) (a' @ z)"
      and "no_early_fence (if c = CHR 0x60 then Suc k else 0) cs"
      by blast+
    with Cons.IH [OF f] a show ?thesis by simp
  qed
qed

lemma find_fence_none_fence_count:
  "find_fence s = None \<Longrightarrow> no_early_fence k s \<Longrightarrow> fence_count k s = 0"
proof (induction s arbitrary: k)
  case Nil
  then show ?case by simp
next
  case (Cons c cs)
  from Cons.prems(1) have nf: "\<not> prefix fence (c # cs)" and f: "find_fence cs = None"
    by (auto split: if_splits option.splits)
  from no_early_fence_step [OF Cons.prems(2) nf]
  have "fence_count k (c # cs) = fence_count (if c = CHR 0x60 then Suc k else 0) cs"
    and "no_early_fence (if c = CHR 0x60 then Suc k else 0) cs"
    by blast+
  with Cons.IH [OF f] show ?case by simp
qed

lemma fence_count_fence: "fence_count 0 (fence @ r) = Suc (fence_count 0 r)"
  by (simp add: fence_def)

lemma fence_count_skip: "fence_count 0 (dropWhile is_space (skip_json r)) = fence_count 0 r"
proof -
  have a: "fence_count 0 (dropWhile is_space t) = fence_count 0 t" for t
    by (induction t) (auto dest: is_space_not_backtick)
  have b: "fence_count 0 (skip_json r) = fence_count 0 r"
    by (auto simp: skip_json_def prefix_def)
  show ?thesis by (simp add: a b)
qed

lemma match_fence_fence_count:
  assumes "match_fence s = Some (a, b)"
  shows "2 \<le> fence_count 0 s"
proof -
  from assms have p: "prefix fence s"
    and f: "find_fence (dropWhile is_space (skip_json (drop 3 s))) = Some (a, b)"
    by (auto simp: match_fence_def split: if_splits)
  from p have s: "s = fence @ drop 3 s"
    by (auto simp: prefix_def fence_def)
  have "fence_count 0 (dropWhile is_space (skip_json (drop 3 s))) = fence_count 0 (a @ fence @ b)"
    using find_fence_split [OF f] by simp
  also have "\<dots> = fence_count 0 (fence @ b)"
    by (rule find_fence_fence_count [OF f no_early_fence_zero])
  finally have "1 \<le> fence_count 0 (drop 3 s)"
    by (simp add: fence_count_skip fence_count_fence)
  then show ?thesis
    using fence_count_fence [of "drop 3 s"] s by simp
qed

lemma match_fence_none_fence_count:
  assumes "match_fence s = None" "prefix fence s"
  shows "fence_count 0 s = 1"
proof -
  from assms have f: "find_fence (dropWhile is_space (skip_json (drop 3 s))) = None"
    by (auto simp: match_fence_def)
  from assms(2) have s: "s = fence @ drop 3 s"
    by (auto simp: prefix_def fence_def)
  have "fence_count 0 (drop 3 s) = 0"
    using find_fence_none_fence_count [OF f no_early_fence_zero] by (simp add: fence_count_skip)
  then show ?thesis
    using fence_count_fence [of "drop 3 s"] s by simp
qed

lemma sub_fences_fixed: "fence_count 0 s \<le> 1 \<Longrightarrow> sub_fences s = s"
proof (induction s rule: sub_fences.induct)
  case 1
  then show ?case by simp
next
  case (2 c cs)
  show ?case
  proof (cases "match_fence (c # cs)")
    case (Some ab)
    then obtain a b where "match_fence (c # cs) = Some (a, b)" by (cases ab) auto
    from match_fence_fence_count [OF this] "2.prems" show ?thesis by simp
  next
    case None
    have "fence_count 0 cs \<le> fence_count 0 (c # cs)"
      using fence_count_zero_le [of cs "Suc 0"] by simp
    with "2.prems" have "fence_count 0 cs \<le> 1" by simp
    with "2.IH"(1) [OF None] None show ?thesis by simp
  qed
qed

lemma sub_fences_fence_count: "no_early_fence k s \<Longrightarrow> fence_count k (sub_fences s) \<le> 1"
proof (induction s arbitrary: k rule: sub_fences.induct)
  case 1
  then show ?case by simp
next
  case (2 c cs)
  show ?case
  proof (cases "match_fence (c # cs)")
    case (Some ab)
    then obtain a b where m: "match_fence (c # cs) = Some (a, b)" by (cases ab) auto
    then have p: "prefix fence (c # cs)"
      and f: "find_fence (dropWhile is_space (skip_json (drop 3 (c # cs)))) = Some (a, b)"
      by (auto simp: match_fence_def split: if_splits)
    have k: "k = 0" by (rule no_early_fence_prefix [OF p "2.prems"])
    have "fence_count 0 (a @ sub_fences b) = fence_count 0 (sub_fences b)"
      by (rule find_fence_fence_count [OF f no_early_fence_zero])
    also have "\<dots> \<le> 1"
      by (rule "2.IH"(2) [OF m refl no_early_fence_zero])
    finally show ?thesis using m k by simp
  next
    case None
    show ?thesis
    proof (cases "prefix fence (c # cs)")
      case True
      have k: "k = 0" by (rule no_early_fence_prefix [OF True "2.prems"])
      have c1: "fence_count 0 (c # cs) = 1" by (rule match_fence_none_fence_count [OF None True])
      from c1 have "fence_count 0 (c # cs) \<le> 1" by (simp only: order_refl)
      then have e: "sub_fences (c # cs) = c # cs" by (rule sub_fences_fixed)
      show ?thesis unfolding k e c1 by simp
    next
      case False
      from no_early_fence_step [OF "2.prems" False]
      have "fence_count k (c # sub_fences cs) = fence_count (if c = CHR 0x60 then Suc k else 0) (sub_fences cs)"
        and "no_early_fence (if c = CHR 0x60 then Suc k else 0) cs"
        by blast+
      with "2.IH"(1) [OF None] None show ?thesis by simp
    qed
  qed
qed

lemma dropWhile_snoc: "\<not> P y \<Longrightarrow> dropWhile P (xs @ [y]) = dropWhile P xs @ [y]"
  by (induction xs) auto

lemma strip_idem: "strip (strip s) = strip s"
proof (cases "dropWhile is_space s")
  case Nil
  have e: "strip s = []" unfolding strip_def Nil by simp
  show ?thesis unfolding e by (simp add: strip_def)
next
  case (Cons y ys)
  then have y: "\<not> is_space y"
    using hd_dropWhile [of is_space s] by auto
  have u: "strip s = y # rev (dropWhile is_space (rev ys))"
    using y by (simp add: strip_def Cons dropWhile_snoc)
  have "dropWhile is_space (strip s) = strip s"
    using y by (simp add: u)
  moreover have "dropWhile is_space (rev (strip s)) = rev (strip s)"
    by (simp add: strip_def)
  ultimately show ?thesis
    by (simp add: strip_def [of "strip s"])
qed

lemma fence_count_strip: "fence_count 0 (strip s) \<le> fence_count 0 s"
proof -
  have a: "fence_count 0 (dropWhile is_space t) = fence_count 0 t" for t
    by (induction t) (auto dest: is_space_not_backtick)
  have "dropWhile is_space s = strip s @ rev (takeWhile is_space (rev (dropWhile is_space s)))"
    unfolding strip_def
    by (metis rev_append rev_rev_ident takeWhile_dropWhile_id)
  then have "fence_count 0 (strip s) \<le> fence_count 0 (dropWhile is_space s)"
    using fence_count_append_le [of 0 "strip s"] by metis
  then show ?thesis by (simp add: a)
qed

lemma sanitize_idem: "sanitize (sanitize x) = sanitize x"
proof -
  have "fence_count 0 (strip (sub_fences x)) \<le> 1"
    using fence_count_strip [of "sub_fences x"] sub_fences_fence_count [OF no_early_fence_zero, of x] by simp
  then have "sub_fences (strip (sub_fences x)) = strip (sub_fences x)"
    by (rule sub_fences_fixed)
  then show ?thesis by (simp add: sanitize_def strip_idem)
qed

lemma sub_fences_match: "match_fence s = Some (a, b) \<Longrightarrow> sub_fences s = a @ sub_fences b"
proof (cases s)
  case Nil
  assume "match_fence s = Some (a, b)"
  with Nil show ?thesis by (simp add: match_fence_def fence_def)
next
  case (Cons c cs)
  assume "match_fence s = Some (a, b)"
  with Cons show ?thesis by simp
qed

lemma sub_fences_short: "length b \<le> 2 \<Longrightarrow> sub_fences b = b"
  by (rule sub_fences_fixed) (simp add: fence_count_short)

lemma find_fence_dropWhile: "find_fence s = None \<Longrightarrow> find_fence (dropWhile P s) = None"
  by (induction s) (auto split: if_splits option.splits)

lemma find_fence_closing:
  "find_fence s = None \<Longrightarrow> \<exists>a b. find_fence (s @ fence) = Some (a, b) \<and> a @ b = s \<and> length b \<le> 2"
proof (induction s)
  case Nil
  then show ?case by (simp add: fence_def)
next
  case (Cons c cs)
  from Cons.prems have nf: "\<not> prefix fence (c # cs)" and f: "find_fence cs = None"
    by (auto split: if_splits option.splits)
  from Cons.IH [OF f] obtain a b
    where ab: "find_fence (cs @ fence) = Some (a, b)" "a @ b = cs" "length b \<le> 2"
    by blast
  show ?case
  proof (cases "prefix fence (c # cs @ fence)")
    case True
    with nf have "length (c # cs) \<le> 2"
      by (cases cs; cases "tl cs") (auto simp: fence_def)
    moreover from True have "drop 3 (c # cs @ fence) = c # cs"
      using nf by (cases cs; cases "tl cs") (auto simp: fence_def)
    ultimately show ?thesis using True by simp
  next
    case False
    with ab show ?thesis by simp
  qed
qed

lemma dropWhile_fence: "dropWhile is_space (s @ fence) = dropWhile is_space s @ fence"
  by (induction s) (auto simp: fence_def is_space_def)

lemma strip_dropWhile: "strip (dropWhile is_space s) = strip s"
  by (simp add: strip_def)

lemma prefix_json_fence: "prefix ''json'' (u @ fence) \<Longrightarrow> prefix ''json'' u"
proof -
  assume p: "prefix ''json'' (u @ fence)"
  have "4 \<le> length u"
  proof (rule ccontr)
    assume "\<not> 4 \<le> length u"
    then have "length u = 0 \<or> length u = 1 \<or> length u = 2 \<or> length u = 3" by arith
    then show False
      using p by (auto simp: fence_def length_Suc_conv numeral_3_eq_3 numeral_2_eq_2)
  qed
  then obtain v r where "u = v @ r" "length v = 4"
    by (metis append_take_drop_id length_take min.absorb2)
  with p show ?thesis
    by (auto simp: prefix_def length_Suc_conv numeral_eq_Suc)
qed

lemma sub_fences_wrapped:
  assumes nf: "find_fence payload = None"
    and ws: "\<forall>c \<in> set ws. is_space c"
    and tag: "tag = ''json'' \<or> tag = [] \<and> \<not> prefix ''json'' (ws @ payload)"
  shows "sub_fences (fence @ tag @ ws @ payload @ fence) = dropWhile is_space payload"
proof -
  let ?c = "dropWhile is_space payload"
  have sk: "skip_json (tag @ ws @ payload @ fence) = ws @ payload @ fence"
    using tag prefix_json_fence [of "ws @ payload"] by (auto simp: skip_json_def)
  have dw: "dropWhile is_space (ws @ payload @ fence) = ?c @ fence"
    using ws dropWhile_fence [of payload] by (simp add: dropWhile_append3)
  obtain a b where ab: "find_fence (?c @ fence) = Some (a, b)" "a @ b = ?c" "length b \<le> 2"
    using find_fence_closing [OF find_fence_dropWhile [OF nf]] by blast
  have m: "match_fence (fence @ r) = find_fence (dropWhile is_space (skip_json r))" for r
    by (simp add: match_fence_def fence_def)
  have "match_fence (fence @ tag @ ws @ payload @ fence) = Some (a, b)"
    unfolding m sk dw by (rule ab(1))
  then have "sub_fences (fence @ tag @ ws @ payload @ fence) = a @ sub_fences b"
    by (rule sub_fences_match)
  with ab show ?thesis by (simp add: sub_fences_short)
qed

lemma find_fence_none_fixed: "find_fence x = None \<Longrightarrow> sub_fences x = x"
  by (rule sub_fences_fixed) (simp add: find_fence_none_fence_count [OF _ no_early_fence_zero])


lemma find_fence_drop: "find_fence s = None \<Longrightarrow> find_fence (drop n s) = None"
proof (induction s arbitrary: n)
  case Nil
  then show ?case by simp
next
  case (Cons c cs)
  from Cons.prems have f: "find_fence cs = None"
    by (auto split: if_splits option.splits)
  show ?case
  proof (cases n)
    case 0
    with Cons.prems show ?thesis by simp
  next
    case (Suc m)
    with Cons.IH [OF f] show ?thesis by simp
  qed
qed

lemma find_fence_skip_json: "find_fence s = None \<Longrightarrow> find_fence (skip_json s) = None"
  by (simp add: skip_json_def find_fence_drop)

lemma skip_json_fence: "skip_json (body @ fence) = skip_json body @ fence"
proof (cases "prefix ''json'' body")
  case True
  then obtain r where "body = ''json'' @ r"
    by (auto simp: prefix_def)
  then show ?thesis by (simp add: skip_json_def)
next
  case False
  with prefix_json_fence [of body] have "\<not> prefix ''json'' (body @ fence)"
    by blast
  with False show ?thesis by (simp add: skip_json_def)
qed

lemma sub_fences_fenced:
  assumes nf: "find_fence body = None"
  shows "sub_fences (fence @ body @ fence) = dropWhile is_space (skip_json body)"
proof -
  let ?c = "dropWhile is_space (skip_json body)"
  have dw: "dropWhile is_space (skip_json (body @ fence)) = ?c @ fence"
    by (simp add: skip_json_fence dropWhile_fence)
  obtain a b where ab: "find_fence (?c @ fence) = Some (a, b)" "a @ b = ?c" "length b \<le> 2"
    using find_fence_closing [OF find_fence_dropWhile [OF find_fence_skip_json [OF nf]]] by blast
  have m: "match_fence (fence @ r) = find_fence (dropWhile is_space (skip_json r))" for r
    by (simp add: match_fence_def fence_def)
  have "match_fence (fence @ body @ fence) = Some (a, b)"
    unfolding m dw by (rule ab(1))
  then have "sub_fences (fence @ body @ fence) = a @ sub_fences b"
    by (rule sub_fences_match)
  with ab show ?thesis by (simp add: sub_fences_short)
qed

lemma sanitize_fenced:
  "find_fence body = None \<Longrightarrow> sanitize (fence @ body @ fence) = strip (skip_json body)"
  by (simp add: sanitize_def sub_fences_fenced strip_dropWhile)

lemma find_fence_json: "find_fence rest = None \<Longrightarrow> find_fence (''json'' @ rest) = None"
  by (simp add: fence_def)

text \<open>
  C5 (as amended). For a body without three consecutive backticks, the sanitizer
  turns fence, body, fence into the body without a leading \<open>json\<close>, trimmed; this is
  also the result for that remainder alone. So a wrapper with the tag \<open>json\<close>, or with
  no tag and a payload that does not begin with \<open>json\<close> after its leading whitespace,
  gives the trimmed payload, the result for the payload alone. The four characters
  \<open>json\<close> are removed whatever follows them (of \<open>json5\<close> the \<open>5\<close> stays), and a body
  that does not begin with \<open>json\<close> is kept whole, with its tag. Text without any fence
  is only trimmed. Sanitizing twice is the same as sanitizing once, for every input.
\<close>

theorem sanitize_fence_wrapper:
  "(find_fence body = None \<longrightarrow>
      sanitize (fence @ body @ fence) = strip (skip_json body)
      \<and> sanitize (fence @ body @ fence) = sanitize (skip_json body))
   \<and> (find_fence payload = None \<and> (\<forall>c \<in> set ws. is_space c) \<and>
      (tag = ''json'' \<or> tag = [] \<and> \<not> prefix ''json'' (ws @ payload))
      \<longrightarrow> sanitize (fence @ tag @ ws @ payload @ fence) = strip payload
          \<and> sanitize (fence @ tag @ ws @ payload @ fence) = sanitize payload)
   \<and> (find_fence rest = None \<longrightarrow> sanitize (fence @ ''json'' @ rest @ fence) = strip rest)
   \<and> (find_fence body = None \<and> \<not> prefix ''json'' body \<longrightarrow>
        sanitize (fence @ body @ fence) = strip body)
   \<and> (find_fence x = None \<longrightarrow> sanitize x = strip x)
   \<and> sanitize (sanitize x) = sanitize x"
proof (intro conjI impI)
  assume nf: "find_fence body = None"
  show "sanitize (fence @ body @ fence) = strip (skip_json body)"
    by (rule sanitize_fenced [OF nf])
  then show "sanitize (fence @ body @ fence) = sanitize (skip_json body)"
    by (simp add: sanitize_def find_fence_none_fixed [OF find_fence_skip_json [OF nf]])
next
  assume a: "find_fence payload = None \<and> (\<forall>c \<in> set ws. is_space c) \<and>
      (tag = ''json'' \<or> tag = [] \<and> \<not> prefix ''json'' (ws @ payload))"
  then show "sanitize (fence @ tag @ ws @ payload @ fence) = strip payload"
    by (simp add: sanitize_def sub_fences_wrapped strip_dropWhile)
  from a show "sanitize (fence @ tag @ ws @ payload @ fence) = sanitize payload"
    by (simp add: sanitize_def sub_fences_wrapped strip_dropWhile find_fence_none_fixed)
next
  assume "find_fence rest = None"
  then have "find_fence (''json'' @ rest) = None"
    by (rule find_fence_json)
  from sanitize_fenced [OF this] show "sanitize (fence @ ''json'' @ rest @ fence) = strip rest"
    by (simp add: skip_json_def)
next
  assume "find_fence body = None \<and> \<not> prefix ''json'' body"
  then show "sanitize (fence @ body @ fence) = strip body"
    by (simp add: sanitize_fenced skip_json_def)
next
  assume "find_fence x = None"
  then show "sanitize x = strip x"
    by (simp add: sanitize_def find_fence_none_fixed)
next
  show "sanitize (sanitize x) = sanitize x"
    by (rule sanitize_idem)
qed

theorem sanitize_fence_wrapper_witness:
  "find_fence ''{}'' = None \<and> is_space (CHR 0x0A)
   \<and> sanitize (fence @ ''json'' @ [CHR 0x0A] @ ''{}'' @ fence) = ''{}''
   \<and> sanitize (fence @ [CHR 0x0A] @ ''{}'' @ [CHR 0x0A] @ fence) = ''{}''
   \<and> sanitize ''{}'' = ''{}''
   \<and> sanitize (fence @ ''json5'' @ [CHR 0x0A] @ ''{}'' @ [CHR 0x0A] @ fence)
       = ''5'' @ [CHR 0x0A] @ ''{}''
   \<and> sanitize (fence @ ''python'' @ [CHR 0x0A] @ ''{}'' @ [CHR 0x0A] @ fence)
       = ''python'' @ [CHR 0x0A] @ ''{}''
   \<and> sanitize (fence @ ''json{}'' @ fence) = ''{}''
   \<and> sanitize (sanitize (fence @ ''json5'' @ [CHR 0x0A] @ ''{}'' @ [CHR 0x0A] @ fence))
       = sanitize (fence @ ''json5'' @ [CHR 0x0A] @ ''{}'' @ [CHR 0x0A] @ fence)"
proof -
  have f: "find_fence ''{}'' = None"
    by (simp add: fence_def)
  have sp: "is_space (CHR 0x0A)"
    by (simp add: is_space_def)
  have s: "strip ''{}'' = ''{}''"
    by (simp add: strip_def is_space_def)
  have c1: "sanitize (fence @ ''json'' @ [CHR 0x0A] @ ''{}'' @ fence) = ''{}''"
    using sanitize_fence_wrapper [where payload = "''{}''" and ws = "[CHR 0x0A]"
        and tag = "''json''"] f sp s
    by simp
  have f2: "find_fence ([CHR 0x0A] @ ''{}'' @ [CHR 0x0A]) = None"
    "\<not> prefix ''json'' ([CHR 0x0A] @ ''{}'' @ [CHR 0x0A])"
    "strip ([CHR 0x0A] @ ''{}'' @ [CHR 0x0A]) = ''{}''"
    by (simp_all add: fence_def strip_def is_space_def)
  have c2: "sanitize (fence @ [CHR 0x0A] @ ''{}'' @ [CHR 0x0A] @ fence) = ''{}''"
    using sanitize_fence_wrapper [where body = "[CHR 0x0A] @ ''{}'' @ [CHR 0x0A]"] f2
    by (simp add: skip_json_def)
  have c3: "sanitize ''{}'' = ''{}''"
    using sanitize_fence_wrapper [where x = "''{}''"] f s by simp
  have f4: "find_fence (''5'' @ [CHR 0x0A] @ ''{}'' @ [CHR 0x0A]) = None"
    "strip (''5'' @ [CHR 0x0A] @ ''{}'' @ [CHR 0x0A]) = ''5'' @ [CHR 0x0A] @ ''{}''"
    by (simp_all add: fence_def strip_def is_space_def)
  have c4: "sanitize (fence @ ''json5'' @ [CHR 0x0A] @ ''{}'' @ [CHR 0x0A] @ fence)
      = ''5'' @ [CHR 0x0A] @ ''{}''"
    using sanitize_fence_wrapper [where rest = "''5'' @ [CHR 0x0A] @ ''{}'' @ [CHR 0x0A]"] f4
    by simp
  have f5: "find_fence (''python'' @ [CHR 0x0A] @ ''{}'' @ [CHR 0x0A]) = None"
    "\<not> prefix ''json'' (''python'' @ [CHR 0x0A] @ ''{}'' @ [CHR 0x0A])"
    "strip (''python'' @ [CHR 0x0A] @ ''{}'' @ [CHR 0x0A]) = ''python'' @ [CHR 0x0A] @ ''{}''"
    by (simp_all add: fence_def strip_def is_space_def)
  have c5: "sanitize (fence @ ''python'' @ [CHR 0x0A] @ ''{}'' @ [CHR 0x0A] @ fence)
      = ''python'' @ [CHR 0x0A] @ ''{}''"
    using sanitize_fence_wrapper [where body = "''python'' @ [CHR 0x0A] @ ''{}'' @ [CHR 0x0A]"] f5
    by (simp add: skip_json_def)
  have f6: "find_fence ''json{}'' = None" "skip_json ''json{}'' = ''{}''"
    by (simp_all add: fence_def skip_json_def)
  have c6: "sanitize (fence @ ''json{}'' @ fence) = ''{}''"
    using sanitize_fence_wrapper [where body = "''json{}''"] f6 s
    by simp
  have c7: "sanitize (sanitize (fence @ ''json5'' @ [CHR 0x0A] @ ''{}'' @ [CHR 0x0A] @ fence))
       = sanitize (fence @ ''json5'' @ [CHR 0x0A] @ ''{}'' @ [CHR 0x0A] @ fence)"
    using sanitize_fence_wrapper
      [where x = "fence @ ''json5'' @ [CHR 0x0A] @ ''{}'' @ [CHR 0x0A] @ fence"]
    by blast
  from f sp c1 c2 c3 c4 c5 c6 c7 show ?thesis by blast
qed

text \<open>A wrapper with another tag keeps the tag: the fenced payload and the payload
  alone are sanitized to different texts.\<close>

theorem sanitize_other_tag_counterexample:
  "sanitize (fence @ ''python'' @ [CHR 0x0A] @ ''{}'' @ [CHR 0x0A] @ fence)
     = ''python'' @ [CHR 0x0A] @ ''{}''
   \<and> sanitize (fence @ ''python'' @ [CHR 0x0A] @ ''{}'' @ [CHR 0x0A] @ fence) \<noteq> sanitize ''{}''"
  by (simp add: sanitize_def strip_def match_fence_def fence_def skip_json_def is_space_def)

section \<open>Lower case, trimming\<close>

lemma of_char_lower_char:
  "(of_char (lower_char c) :: nat) =
     (if (65 \<le> (of_char c :: nat) \<and> (of_char c :: nat) \<le> 90) \<or>
         (192 \<le> (of_char c :: nat) \<and> (of_char c :: nat) \<le> 222 \<and> (of_char c :: nat) \<noteq> 215)
      then of_char c + 32 else of_char c)"
  by (auto simp: lower_char_def Let_def)

lemma lower_char_idem: "lower_char (lower_char c) = lower_char c"
proof -
  have "(of_char (lower_char (lower_char c)) :: nat) = of_char (lower_char c)"
    by (simp add: of_char_lower_char)
  then show ?thesis by (simp only: of_char_eq_iff)
qed

lemma lower_idem: "lower (lower s) = lower s"
  by (simp add: lower_def lower_char_idem)

lemma lower_char_eq_iff:
  assumes "(of_char d :: nat) < 65"
  shows "lower_char c = d \<longleftrightarrow> c = d"
proof -
  have "lower_char c = d \<longleftrightarrow> (of_char (lower_char c) :: nat) = of_char d"
    by (simp only: of_char_eq_iff)
  also have "\<dots> \<longleftrightarrow> (of_char c :: nat) = of_char d"
    using assms by (auto simp: of_char_lower_char)
  also have "\<dots> \<longleftrightarrow> c = d"
    by (simp only: of_char_eq_iff)
  finally show ?thesis .
qed

lemma lower_char_dot [simp]: "lower_char c = CHR ''.'' \<longleftrightarrow> c = CHR ''.''"
  by (rule lower_char_eq_iff) simp

lemma lower_char_slash [simp]: "lower_char c = CHR ''/'' \<longleftrightarrow> c = CHR ''/''"
  by (rule lower_char_eq_iff) simp

lemma lower_char_nul [simp]: "lower_char c = CHR 0x00 \<longleftrightarrow> c = CHR 0x00"
  by (rule lower_char_eq_iff) simp

lemma takeWhile_lower:
  assumes "\<And>c. lower_char c = d \<longleftrightarrow> c = d"
  shows "takeWhile (\<lambda>c. c \<noteq> d) (lower xs) = lower (takeWhile (\<lambda>c. c \<noteq> d) xs)"
  by (induction xs) (simp_all add: lower_def assms)

lemma lower_rev: "lower (rev s) = rev (lower s)"
  by (simp add: lower_def rev_map)

lemma length_lower [simp]: "length (lower s) = length s"
  by (simp add: lower_def)

lemma lower_split_dot_last: "split_dot_last (lower s) = lower (split_dot_last s)"
  by (simp add: split_dot_last_def lower_rev [symmetric] takeWhile_lower)

lemma lower_mem:
  assumes "\<And>c. lower_char c = d \<longleftrightarrow> c = d"
  shows "d \<in> set (lower s) \<longleftrightarrow> d \<in> set s"
proof -
  have "d \<in> set (lower s) \<longleftrightarrow> (\<exists>c \<in> set s. lower_char c = d)"
    by (auto simp: lower_def)
  also have "\<dots> \<longleftrightarrow> (\<exists>c \<in> set s. c = d)"
    by (simp only: assms)
  also have "\<dots> \<longleftrightarrow> d \<in> set s"
    by auto
  finally show ?thesis .
qed

lemma lower_splitext_ext: "splitext_ext (lower s) = lower (splitext_ext s)"
proof -
  let ?base = "rev (takeWhile (\<lambda>c. c \<noteq> CHR ''/'') (rev s))"
  have b: "rev (takeWhile (\<lambda>c. c \<noteq> CHR ''/'') (rev (lower s))) = lower ?base"
    by (simp add: lower_rev [symmetric] takeWhile_lower)
  have r: "take n (lower t) = lower (take n t)" for n t
    by (simp add: lower_def take_map)
  have e: "(\<exists>c \<in> set (lower t). c \<noteq> CHR ''.'') \<longleftrightarrow> (\<exists>c \<in> set t. c \<noteq> CHR ''.'')" for t
    by (auto simp: lower_def)
  have d: "CHR ''.'' \<in> set (lower t) \<longleftrightarrow> CHR ''.'' \<in> set t" for t
    by (rule lower_mem) simp
  have c: "CHR ''.'' # lower t = lower (CHR ''.'' # t)" for t
    by (simp add: lower_def lower_char_def)
  show ?thesis
    unfolding splitext_ext_def b Let_def lower_split_dot_last length_lower r e d c
    by (simp add: lower_def)
qed

lemma strip_trimmed:
  "strip s = [] \<or> (\<not> is_space (hd (strip s)) \<and> \<not> is_space (last (strip s)))"
proof (cases "dropWhile is_space s")
  case Nil
  have "strip s = []" unfolding strip_def Nil by simp
  then show ?thesis by simp
next
  case (Cons y ys)
  then have y: "\<not> is_space y"
    using hd_dropWhile [of is_space s] by auto
  have u: "strip s = y # rev (dropWhile is_space (rev ys))"
    using y by (simp add: strip_def Cons dropWhile_snoc)
  have "dropWhile is_space (rev ys @ [y]) \<noteq> []"
    using y by (simp add: dropWhile_snoc)
  then have "\<not> is_space (hd (dropWhile is_space (rev ys @ [y])))"
    by (rule hd_dropWhile)
  then have "\<not> is_space (last (strip s))"
    unfolding strip_def Cons using \<open>dropWhile is_space (rev ys @ [y]) \<noteq> []\<close>
    by (simp add: last_rev)
  with y u show ?thesis by simp
qed

lemma extract_text_from_file_strip:
  "extract_text_from_file env disk p = Inr t \<Longrightarrow> \<exists>raw. t = strip raw"
  by (auto simp: extract_text_from_file_def Let_def split: if_splits sum.splits)


lemma pdf_loop_concat:
  "pdf_loop acc pages =
     acc @ concat (map (\<lambda>page. page @ [CHR 0x0A]) (filter (\<lambda>page. page \<noteq> []) pages))"
  by (induction pages arbitrary: acc) simp_all

text \<open>
  C7. Whatever \<open>extract_text_from_file\<close> returns is trimmed: stripping it changes
  nothing, and it neither starts nor ends with whitespace. For a path whose lower-cased
  form ends with none of \<open>.txt\<close>, \<open>.pdf\<close>, \<open>.docx\<close> the result is the empty string and
  no exception is raised. For a file on disk the result is, trimmed: for \<open>.txt\<close> the
  text read from the file; for \<open>.pdf\<close> the texts of the pages that have text, in order,
  each followed by a newline; for \<open>.docx\<close> the text of the document. An exception of
  the reader is raised unchanged.
\<close>

theorem extract_text_trimmed:
  "(extract_text_from_file env disk p = Inr t \<longrightarrow>
      strip t = t \<and> (t = [] \<or> \<not> is_space (hd t) \<and> \<not> is_space (last t)))
   \<and> (\<not> endswith (lower p) ''.txt'' \<and> \<not> endswith (lower p) ''.pdf'' \<and>
      \<not> endswith (lower p) ''.docx'' \<longrightarrow> extract_text_from_file env disk p = Inr [])
   \<and> (endswith (lower p) ''.txt'' \<and> disk p = Some bytes \<longrightarrow>
        extract_text_from_file env disk p =
          (case read_text env bytes of Inl e \<Rightarrow> Inl e | Inr text \<Rightarrow> Inr (strip text)))
   \<and> (\<not> endswith (lower p) ''.txt'' \<and> endswith (lower p) ''.pdf'' \<and> disk p = Some bytes \<longrightarrow>
        extract_text_from_file env disk p =
          (case pdf_pages env bytes of
             Inl e \<Rightarrow> Inl e
           | Inr pages \<Rightarrow>
               Inr (strip (concat (map (\<lambda>page. page @ [CHR 0x0A])
                                      (filter (\<lambda>page. page \<noteq> []) pages))))))
   \<and> (\<not> endswith (lower p) ''.txt'' \<and> \<not> endswith (lower p) ''.pdf'' \<and>
      endswith (lower p) ''.docx'' \<and> disk p = Some bytes \<longrightarrow>
        extract_text_from_file env disk p =
          (case docx_process env bytes of Inl e \<Rightarrow> Inl e | Inr text \<Rightarrow> Inr (strip text)))"
proof (intro conjI impI)
  assume "extract_text_from_file env disk p = Inr t"
  then obtain raw where t: "t = strip raw"
    using extract_text_from_file_strip by blast
  show "strip t = t" by (simp add: t strip_idem)
  show "t = [] \<or> \<not> is_space (hd t) \<and> \<not> is_space (last t)"
    unfolding t by (rule strip_trimmed)
next
  assume "\<not> endswith (lower p) ''.txt'' \<and> \<not> endswith (lower p) ''.pdf'' \<and>
      \<not> endswith (lower p) ''.docx''"
  then show "extract_text_from_file env disk p = Inr []"
    by (simp add: extract_text_from_file_def Let_def strip_def)
next
  assume "endswith (lower p) ''.txt'' \<and> disk p = Some bytes"
  then show "extract_text_from_file env disk p =
      (case read_text env bytes of Inl e \<Rightarrow> Inl e | Inr text \<Rightarrow> Inr (strip text))"
    by (simp add: extract_text_from_file_def Let_def open_file_def)
next
  assume "\<not> endswith (lower p) ''.txt'' \<and> endswith (lower p) ''.pdf'' \<and> disk p = Some bytes"
  then show "extract_text_from_file env disk p =
      (case pdf_pages env bytes of
         Inl e \<Rightarrow> Inl e
       | Inr pages \<Rightarrow>
           Inr (strip (concat (map (\<lambda>page. page @ [CHR 0x0A])
                                  (filter (\<lambda>page. page \<noteq> []) pages)))))"
    by (simp add: extract_text_from_file_def Let_def open_file_def pdf_loop_concat
        split: sum.splits)
next
  assume "\<not> endswith (lower p) ''.txt'' \<and> \<not> endswith (lower p) ''.pdf'' \<and>
      endswith (lower p) ''.docx'' \<and> disk p = Some bytes"
  then show "extract_text_from_file env disk p =
      (case docx_process env bytes of Inl e \<Rightarrow> Inl e | Inr text \<Rightarrow> Inr (strip text))"
    by (simp add: extract_text_from_file_def Let_def open_file_def)
qed

theorem extract_text_trimmed_witness:
  "extract_text_from_file demo_env demo_disk ''/tmp/a.TXT'' = Inr ''hello''
   \<and> strip ''hello'' = ''hello''
   \<and> extract_text_from_file demo_env demo_disk ''/tmp/b.pdf''
       = Inr (''Road broken'' @ [CHR 0x0A] @ ''near school'')
   \<and> extract_text_from_file demo_env demo_disk ''/tmp/c.Docx'' = Inr ''Dear Sir''
   \<and> extract_text_from_file demo_env demo_disk ''/tmp/d.pdf''
       = Inl (Raised ''No /Root object! - Is this really a PDF?'')
   \<and> extract_text_from_file demo_env demo_disk ''/tmp/e.doc'' = Inr []"
proof -
  note inst = extract_text_trimmed [where env = demo_env and disk = demo_disk]
  have ta: "endswith (lower ''/tmp/a.TXT'') ''.txt''"
    "demo_disk ''/tmp/a.TXT'' = Some (''  hello '' @ [CHR 0x0A])"
    by code_simp+
  have ra: "(case read_text demo_env (''  hello '' @ [CHR 0x0A]) of Inl e \<Rightarrow> Inl e
             | Inr text \<Rightarrow> Inr (strip text)) = Inr ''hello''"
    by code_simp
  have c1: "extract_text_from_file demo_env demo_disk ''/tmp/a.TXT'' = Inr ''hello''"
    using inst [where p = "''/tmp/a.TXT''" and bytes = "''  hello '' @ [CHR 0x0A]"] ta
    by (simp only: ra simp_thms)
  have c2: "strip ''hello'' = ''hello''"
    using inst [where p = "''/tmp/a.TXT''" and t = "''hello''"] c1 by blast
  have tb: "\<not> endswith (lower ''/tmp/b.pdf'') ''.txt''" "endswith (lower ''/tmp/b.pdf'') ''.pdf''"
    "demo_disk ''/tmp/b.pdf'' = Some ''three pages''"
    by code_simp+
  have rb: "(case pdf_pages demo_env ''three pages'' of
               Inl e \<Rightarrow> Inl e
             | Inr pages \<Rightarrow>
                 Inr (strip (concat (map (\<lambda>page. page @ [CHR 0x0A])
                                        (filter (\<lambda>page. page \<noteq> []) pages)))))
      = Inr (''Road broken'' @ [CHR 0x0A] @ ''near school'')"
    by code_simp
  have c3: "extract_text_from_file demo_env demo_disk ''/tmp/b.pdf''
      = Inr (''Road broken'' @ [CHR 0x0A] @ ''near school'')"
    using inst [where p = "''/tmp/b.pdf''" and bytes = "''three pages''"] tb
    by (simp only: rb simp_thms)
  have tc: "\<not> endswith (lower ''/tmp/c.Docx'') ''.txt''" "\<not> endswith (lower ''/tmp/c.Docx'') ''.pdf''"
    "endswith (lower ''/tmp/c.Docx'') ''.docx''" "demo_disk ''/tmp/c.Docx'' = Some ''letter''"
    by code_simp+
  have rc: "(case docx_process demo_env ''letter'' of Inl e \<Rightarrow> Inl e
             | Inr text \<Rightarrow> Inr (strip text)) = Inr ''Dear Sir''"
    by code_simp
  have c4: "extract_text_from_file demo_env demo_disk ''/tmp/c.Docx'' = Inr ''Dear Sir''"
    using inst [where p = "''/tmp/c.Docx''" and bytes = "''letter''"] tc
    by (simp only: rc simp_thms)
  have td: "\<not> endswith (lower ''/tmp/d.pdf'') ''.txt''" "endswith (lower ''/tmp/d.pdf'') ''.pdf''"
    "demo_disk ''/tmp/d.pdf'' = Some ''hello''"
    by code_simp+
  have rd: "(case pdf_pages demo_env ''hello'' of
               Inl e \<Rightarrow> Inl e
             | Inr pages \<Rightarrow>
                 Inr (strip (concat (map (\<lambda>page. page @ [CHR 0x0A])
                                        (filter (\<lambda>page. page \<noteq> []) pages)))))
      = Inl (Raised ''No /Root object! - Is this really a PDF?'')"
    by code_simp
  have c5: "extract_text_from_file demo_env demo_disk ''/tmp/d.pdf''
      = Inl (Raised ''No /Root object! - Is this really a PDF?'')"
    using inst [where p = "''/tmp/d.pdf''" and bytes = "''hello''"] td
    by (simp only: rd simp_thms)
  have te: "\<not> endswith (lower ''/tmp/e.doc'') ''.txt'' \<and> \<not> endswith (lower ''/tmp/e.doc'') ''.pdf'' \<and>
      \<not> endswith (lower ''/tmp/e.doc'') ''.docx''"
    by code_simp
  have c6: "extract_text_from_file demo_env demo_disk ''/tmp/e.doc'' = Inr []"
    using inst [where p = "''/tmp/e.doc''"] te by blast
  from c1 c2 c3 c4 c5 c6 show ?thesis by blast
qed

section \<open>Responses do not depend on the call log\<close>

lemma fst_analyze_and_respond:
  "fst (analyze_and_respond env w g ov) = fst (analyze_and_respond env w' g ov)"
  by (simp add: analyze_and_respond_def Let_def split: sum.splits)

lemma fst_handle_post:
  "fst (handle_post env w req) =
     (case fst (resolve_shape env w req) of
        Raise e \<Rightarrow> Inl e
      | Return r \<Rightarrow> Inr r
      | Next (g, ov) \<Rightarrow> fst (analyze_and_respond env w (raw_body_fallback env req g) ov))"
proof (cases "resolve_shape env w req")
  case (Pair fl w1)
  show ?thesis
  proof (cases fl)
    case (Next r)
    obtain g ov where r: "r = (g, ov)" by (cases r)
    show ?thesis
      using fst_analyze_and_respond [of env w1 "raw_body_fallback env req g" ov w]
      by (simp add: handle_post_def Pair Next r)
  qed (simp_all add: handle_post_def Pair)
qed

lemma fst_redtape_reducer:
  "fst (redtape_reducer env w req) =
     (if http_method req \<noteq> ''POST'' then Response (ErrorLiteral ''Only POST allowed'') 405
      else (case fst (handle_post env w req) of
              Inl e \<Rightarrow> Response (ErrorStr e) 500
            | Inr r \<Rightarrow> r))"
  by (simp add: redtape_reducer_def split: prod.splits sum.splits)

lemma extract_text_from_file_lower:
  "lower p = lower q \<Longrightarrow> disk p = disk' q
    \<Longrightarrow> extract_text_from_file env disk p = extract_text_from_file env disk' q"
  by (simp add: extract_text_from_file_def open_file_def Let_def)

lemma fst_extract_then_remove:
  assumes "fs w p = Some b" "fs w' q = Some b" "lower p = lower q"
  shows "fst (extract_then_remove env w exts ext p) = fst (extract_then_remove env w' exts ext q)"
proof -
  have f: "extract_text_from_file env (fs w) p = extract_text_from_file env (fs w') q"
    using assms by (intro extract_text_from_file_lower) simp_all
  have i: "extract_text_from_image env (fs w) p = extract_text_from_image env (fs w') q"
    using assms by (simp add: extract_text_from_image_def open_file_def)
  have c: "classify_image_with_gemini env (fs w) p = classify_image_with_gemini env (fs w') q"
    using assms by (simp add: classify_image_with_gemini_def open_file_def)
  show ?thesis
    using assms(1,2)
    by (simp add: extract_then_remove_def extract_content_def os_remove_def log_call_def
        Let_def f i c split: sum.splits)
qed

lemma utf8_length_lower: "utf8_length (lower s) = utf8_length s"
proof -
  have "((of_char (lower_char c) :: nat) < 128) = ((of_char c :: nat) < 128)" for c
    by (auto simp: of_char_lower_char)
  then show ?thesis
    by (simp add: utf8_length_def lower_def comp_def)
qed

lemma file_name_lower: "file_name (lower s) = lower (file_name s)"
  by (simp add: file_name_def lower_rev [symmetric] takeWhile_lower)

lemma file_name_append:
  "file_name (st @ t) = (if CHR ''/'' \<in> set t then file_name t else file_name st @ t)"
  by (auto simp: file_name_def takeWhile_append)

lemma utf8_length_file_name_lower:
  "utf8_length (file_name (st @ lower t)) = utf8_length (file_name (st @ t))"
proof -
  have s: "CHR ''/'' \<in> set (lower t) \<longleftrightarrow> CHR ''/'' \<in> set t"
    by (rule lower_mem) simp
  show ?thesis
    by (simp add: file_name_append s file_name_lower utf8_length_lower utf8_length_def)
       (simp add: utf8_length_lower [unfolded utf8_length_def])
qed

lemma fst_multipart_branch:
  "fst (multipart_branch env w (req\<lparr>files := (''file'', \<lparr>filename = F, content = b\<rparr>) # rest\<rparr>)) =
   fst (multipart_branch env w (req\<lparr>files := (''file'', \<lparr>filename = lower F, content = b\<rparr>) # rest\<rparr>))"
proof -
  have e: "lower F = [] \<longleftrightarrow> F = []"
    by (simp add: lower_def)
  have s: "CHR ''/'' \<in> set (lower t) \<longleftrightarrow> CHR ''/'' \<in> set t" for t
    by (rule lower_mem) simp
  have z: "CHR 0x00 \<in> set (lower t) \<longleftrightarrow> CHR 0x00 \<in> set t" for t
    by (rule lower_mem) simp
  have l: "lower (st @ lower t) = lower (st @ t)" for st t
    by (simp add: lower_def lower_char_idem)
  show ?thesis
    by (simp add: multipart_branch_def named_temporary_file_def write_file_def Let_def e s z
        lower_splitext_ext lower_split_dot_last lower_idem utf8_length_file_name_lower
        fst_extract_then_remove [where b = b] l)
qed


lemma raw_body_fallback_data:
  "data req' = data req \<Longrightarrow> raw_body_fallback env req' g = raw_body_fallback env req g"
  by (simp add: raw_body_fallback_def)

lemma resolve_shape_json_files:
  "is_json req \<Longrightarrow> resolve_shape env w (req\<lparr>files := fl\<rparr>) = resolve_shape env w req"
  by (simp add: resolve_shape_def)

lemma fst_resolve_shape_multipart:
  "\<not> is_json req \<Longrightarrow>
   fst (resolve_shape env w req) =
     (if files req \<noteq> [] then
        (case fst (multipart_branch env w req) of Inl e \<Rightarrow> Raise e | Inr r \<Rightarrow> Next r)
      else Next ([], None))"
  by (simp add: resolve_shape_def split: prod.splits sum.splits)

lemma raw_body_fallback_update:
  "raw_body_fallback env (req\<lparr>get_json := x\<rparr>) = raw_body_fallback env req"
  by (simp add: raw_body_fallback_def fun_eq_iff)

lemma multipart_filename_lower:
  "fst (redtape_reducer env w
          (req\<lparr>files := (''file'', \<lparr>filename = F, content = b\<rparr>) # rest\<rparr>)) =
     fst (redtape_reducer env w
          (req\<lparr>files := (''file'', \<lparr>filename = lower F, content = b\<rparr>) # rest\<rparr>))"
proof -
  let ?r1 = "req\<lparr>files := (''file'', \<lparr>filename = F, content = b\<rparr>) # rest\<rparr>"
  let ?r2 = "req\<lparr>files := (''file'', \<lparr>filename = lower F, content = b\<rparr>) # rest\<rparr>"
  have f: "raw_body_fallback env ?r1 = raw_body_fallback env ?r2"
    by (simp add: raw_body_fallback_def fun_eq_iff)
  have eq: "fst (resolve_shape env w ?r1) = fst (resolve_shape env w ?r2)"
  proof (cases "is_json req")
    case True
    then show ?thesis by (simp add: resolve_shape_json_files)
  next
    case False
    then show ?thesis
      using fst_multipart_branch [where env = env and w = w and req = req and F = F and b = b
          and rest = rest]
      by (simp add: fst_resolve_shape_multipart)
  qed
  have m: "http_method ?r1 = http_method ?r2" by simp
  show "fst (redtape_reducer env w ?r1) = fst (redtape_reducer env w ?r2)"
    by (simp only: fst_redtape_reducer fst_handle_post f eq m)
qed


lemma json_file_type_lower:
  "redtape_reducer env w (req\<lparr>get_json := Some (JObj ((''file_type'', JStr T) # kvs))\<rparr>) =
   redtape_reducer env w (req\<lparr>get_json := Some (JObj ((''file_type'', JStr (lower T)) # kvs))\<rparr>)"
proof -
  let ?d1 = "JObj ((''file_type'', JStr T) # kvs)"
  let ?d2 = "JObj ((''file_type'', JStr (lower T)) # kvs)"
  have t: "json_text ?d1 = json_text ?d2"
    by (simp add: json_text_def split: bool.splits)
  have h: "json_has_file ?d1 = json_has_file ?d2"
    by (simp add: json_has_file_def split: bool.splits)
  have b: "json_file_branch env w ?d1 = json_file_branch env w ?d2"
    by (simp add: json_file_branch_def lower_idem Let_def split: sum.splits)
  have tr: "truthy ?d1 = truthy ?d2"
    by simp
  have m: "multipart_branch env w (req\<lparr>get_json := x\<rparr>) = multipart_branch env w req" for x
    by (simp add: multipart_branch_def)
  have s: "is_json (req\<lparr>get_json := x\<rparr>) = is_json req"
    "files (req\<lparr>get_json := x\<rparr>) = files req"
    "http_method (req\<lparr>get_json := x\<rparr>) = http_method req"
    "get_json (req\<lparr>get_json := x\<rparr>) = x" for x
    by simp_all
  have r: "resolve_shape env w (req\<lparr>get_json := Some ?d1\<rparr>) =
      resolve_shape env w (req\<lparr>get_json := Some ?d2\<rparr>)"
    by (simp only: resolve_shape_def s m option.case tr t h b)
  show ?thesis
    by (simp only: redtape_reducer_def handle_post_def r raw_body_fallback_update s)
qed

text \<open>
  C10. Extension matching ignores case. A JSON request whose \<open>file_type\<close> is \<open>T\<close> is
  handled exactly as the same request with \<open>file_type\<close> lower-cased; a multipart upload
  named \<open>F\<close> gets the same response as the same upload named in lower case; and the
  text extractor gives the same result for two paths that agree in lower case and hold
  the same bytes.
\<close>

theorem extension_case_insensitive:
  "redtape_reducer env w (req\<lparr>get_json := Some (JObj ((''file_type'', JStr T) # kvs))\<rparr>) =
   redtape_reducer env w (req\<lparr>get_json := Some (JObj ((''file_type'', JStr (lower T)) # kvs))\<rparr>)
   \<and> fst (redtape_reducer env w
          (req\<lparr>files := (''file'', \<lparr>filename = F, content = b\<rparr>) # rest\<rparr>)) =
     fst (redtape_reducer env w
          (req\<lparr>files := (''file'', \<lparr>filename = lower F, content = b\<rparr>) # rest\<rparr>))
   \<and> (lower p = lower q \<and> disk p = disk q \<longrightarrow>
        extract_text_from_file env disk p = extract_text_from_file env disk q)"
  using json_file_type_lower [where env = env and w = w and req = req and T = T and kvs = kvs]
    multipart_filename_lower [where env = env and w = w and req = req and F = F and b = b
      and rest = rest]
    extract_text_from_file_lower [where p = p and q = q and disk = disk and disk' = disk and env = env]
  by blast

theorem extension_case_insensitive_witness:
  "lower ''/tmp/A.TXT'' = lower ''/tmp/a.txt''
   \<and> extract_text_from_file demo_env [''/tmp/A.TXT'' \<mapsto> ''hi'', ''/tmp/a.txt'' \<mapsto> ''hi''] ''/tmp/A.TXT''
     = extract_text_from_file demo_env [''/tmp/A.TXT'' \<mapsto> ''hi'', ''/tmp/a.txt'' \<mapsto> ''hi''] ''/tmp/a.txt''
   \<and> fst (redtape_reducer demo_env demo_world (multipart_request ''complaint.TXT'' ''hello''))
     = fst (redtape_reducer demo_env demo_world (multipart_request ''complaint.txt'' ''hello''))"
proof -
  let ?disk = "[''/tmp/A.TXT'' \<mapsto> ''hi'', ''/tmp/a.txt'' \<mapsto> ''hi'']"
  let ?req = "multipart_request [] ''hello''"
  have l: "lower ''/tmp/A.TXT'' = lower ''/tmp/a.txt''"
    by code_simp
  have d: "?disk ''/tmp/A.TXT'' = ?disk ''/tmp/a.txt''"
    by simp
  have n: "lower ''complaint.TXT'' = ''complaint.txt''"
    by code_simp
  have r: "multipart_request name ''hello'' =
      ?req\<lparr>files := (''file'', \<lparr>filename = name, content = ''hello''\<rparr>) # []\<rparr>" for name
    by (simp add: multipart_request_def)
  note inst = extension_case_insensitive [where env = demo_env and w = demo_world and req = ?req
      and F = "''complaint.TXT''" and b = "''hello''" and rest = "[]"
      and p = "''/tmp/A.TXT''" and q = "''/tmp/a.txt''" and disk = ?disk]
  have e: "extract_text_from_file demo_env ?disk ''/tmp/A.TXT'' =
      extract_text_from_file demo_env ?disk ''/tmp/a.txt''"
    using inst l d by blast
  have m: "fst (redtape_reducer demo_env demo_world (multipart_request ''complaint.TXT'' ''hello''))
      = fst (redtape_reducer demo_env demo_world (multipart_request ''complaint.txt'' ''hello''))"
    using inst unfolding n r [symmetric] by blast
  from l e m show ?thesis by blast
qed

section \<open>The handler: shapes, fallback, errors\<close>

lemma strip_Nil [simp]: "strip [] = []"
  by (simp add: strip_def)

lemma strip_nonempty: "strip t \<noteq> [] \<Longrightarrow> t \<noteq> []"
  by auto

lemma snd_analyze_and_respond:
  "snd (analyze_and_respond env w g ov) = (if g = [] then w else log_call (Analyze g ov) w)"
  by (simp add: analyze_and_respond_def Let_def split: sum.splits)

lemma snd_redtape_reducer:
  "snd (redtape_reducer env w req) =
     (if http_method req \<noteq> ''POST'' then w else snd (handle_post env w req))"
  by (simp add: redtape_reducer_def split: prod.splits sum.splits)

lemma raw_body_fallback_nonempty: "g \<noteq> [] \<Longrightarrow> raw_body_fallback env req g = g"
  by (simp add: raw_body_fallback_def)

lemma raw_body_fallback_empty:
  "raw_body_fallback env req [] =
     (case utf8_decode env (data req) of Inl e \<Rightarrow> [] | Inr decoded \<Rightarrow> strip decoded)"
  by (simp add: raw_body_fallback_def Let_def split: sum.splits)

lemma json_text_obj:
  "map_of kvs ''text'' = Some (JStr t) \<Longrightarrow>
   json_text (JObj kvs) = Inr (if strip t \<noteq> [] then Some t else None)"
  by (simp add: json_text_def)

lemma json_text_obj_absent:
  "map_of kvs ''text'' = None \<Longrightarrow> json_text (JObj kvs) = Inr None"
  by (simp add: json_text_def)

lemma json_has_file_obj:
  "json_has_file (JObj kvs) = Inr (map_of kvs ''file'' \<noteq> None \<and> map_of kvs ''file_type'' \<noteq> None)"
  by (simp add: json_has_file_def split: bool.splits)

lemma map_of_truthy: "map_of kvs k = Some v \<Longrightarrow> truthy (JObj kvs)"
  by (cases kvs) auto


subsection \<open>The temporary file\<close>

text \<open>When the extraction returns, the statement after it removes the temporary
  file.\<close>

lemma temp_file_removed_on_return:
  "extract_then_remove env w text_exts ext p = (Inr r, w') \<Longrightarrow> fs w' p = None"
  by (auto simp: extract_then_remove_def os_remove_def split: prod.splits sum.splits option.splits)

text \<open>
  C1. The claim is that the temporary file is removed on every path, also when the
  extraction raises. The handler calls \<open>os.remove\<close> after the extraction, outside any
  \<open>finally\<close>: for the JSON request with the base64 file \<open>aGVsbG8=\<close> (the bytes
  \<open>hello\<close>) declared as \<open>pdf\<close>, the PDF reader raises, the response is the 500 of the
  outer handler, and the file \<open>/tmp/tmpa.pdf\<close>, absent before the request, is still on
  disk after it.
\<close>

theorem temp_file_left_after_extraction_error:
  "fst (redtape_reducer demo_env demo_world
          (json_request [(''file'', JStr ''aGVsbG8=''), (''file_type'', JStr ''pdf'')] []))
     = Response (ErrorStr (Raised ''No /Root object! - Is this really a PDF?'')) 500
   \<and> fs (snd (redtape_reducer demo_env demo_world
          (json_request [(''file'', JStr ''aGVsbG8=''), (''file_type'', JStr ''pdf'')] [])))
        ''/tmp/tmpa.pdf'' = Some ''hello''
   \<and> fs demo_world ''/tmp/tmpa.pdf'' = None"
  by code_simp

subsection \<open>Priority of the shapes\<close>




text \<open>
  C3 (as amended). For a request that supplies a base64 file or a multipart file, the
  grievance text is the extracted text when that is not empty; when the extraction
  yields the empty string (an empty document, or an extension no branch handles), the
  handler falls back to the raw body, which becomes the grievance text when it decodes
  to text that is not blank.
\<close>

theorem file_shape_raw_body_fallback:
  "(is_json req \<and> get_json req = Some d \<and> truthy d \<and> json_text d = Inr None \<and>
      json_has_file d = Inr True \<and> json_file_branch env w d = (Inr (t, ov), w1) \<longrightarrow>
        handle_post env w req =
          analyze_and_respond env w1
            (if t \<noteq> [] then t
             else (case utf8_decode env (data req) of Inl e \<Rightarrow> [] | Inr decoded \<Rightarrow> strip decoded))
            ov)
   \<and> (\<not> is_json req \<and> files req \<noteq> [] \<and> multipart_branch env w req = (Inr (t, ov), w1) \<longrightarrow>
        handle_post env w req =
          analyze_and_respond env w1
            (if t \<noteq> [] then t
             else (case utf8_decode env (data req) of Inl e \<Rightarrow> [] | Inr decoded \<Rightarrow> strip decoded))
            ov)"
  by (simp add: handle_post_def resolve_shape_def raw_body_fallback_nonempty
      raw_body_fallback_empty)

theorem file_shape_raw_body_fallback_witness:
  "fst (json_file_branch demo_env demo_world
         (JObj [(''file'', JStr ''aGVsbG8=''), (''file_type'', JStr ''txt'')])) = Inr (''hello'', None)
   \<and> handle_post demo_env demo_world file_only_request =
       analyze_and_respond demo_env
         (snd (json_file_branch demo_env demo_world
            (JObj [(''file'', JStr ''aGVsbG8=''), (''file_type'', JStr ''txt'')]))) ''hello'' None
   \<and> fst (multipart_branch demo_env demo_world (multipart_request ''complaint.doc'' ''hello''))
       = Inr ([], None)
   \<and> handle_post demo_env demo_world (multipart_request ''complaint.doc'' ''hello'') =
       analyze_and_respond demo_env
         (snd (multipart_branch demo_env demo_world (multipart_request ''complaint.doc'' ''hello'')))
         [] None"
proof -
  let ?d = "JObj [(''file'', JStr ''aGVsbG8=''), (''file_type'', JStr ''txt'')]"
  let ?m = "multipart_request ''complaint.doc'' ''hello''"
  have h: "is_json file_only_request" "get_json file_only_request = Some ?d" "truthy ?d"
    by (simp_all add: file_only_request_def json_request_def)
  have t: "json_text ?d = Inr None" "json_has_file ?d = Inr True"
    by (simp_all add: json_text_def json_has_file_def)
  have f: "fst (json_file_branch demo_env demo_world ?d) = Inr (''hello'', None)"
    by code_simp
  then have b: "json_file_branch demo_env demo_world ?d =
      (Inr (''hello'', None), snd (json_file_branch demo_env demo_world ?d))"
    by (simp add: prod_eq_iff)
  have c1: "handle_post demo_env demo_world file_only_request =
      analyze_and_respond demo_env (snd (json_file_branch demo_env demo_world ?d)) ''hello'' None"
    using file_shape_raw_body_fallback [where req = file_only_request and d = ?d and env = demo_env
        and w = demo_world and t = "''hello''" and ov = None
        and ?w1.0 = "snd (json_file_branch demo_env demo_world ?d)"] h t b
    by simp
  have hm: "\<not> is_json ?m" "files ?m \<noteq> []"
    by (simp_all add: multipart_request_def)
  have fm: "fst (multipart_branch demo_env demo_world ?m) = Inr ([], None)"
    by code_simp
  then have bm: "multipart_branch demo_env demo_world ?m =
      (Inr ([], None), snd (multipart_branch demo_env demo_world ?m))"
    by (simp add: prod_eq_iff)
  have dm: "(case utf8_decode demo_env (data ?m) of Inl e \<Rightarrow> [] | Inr decoded \<Rightarrow> strip decoded)
      = []"
    by code_simp
  have c2: "handle_post demo_env demo_world ?m =
      analyze_and_respond demo_env (snd (multipart_branch demo_env demo_world ?m)) [] None"
    using file_shape_raw_body_fallback [where req = ?m and env = demo_env
        and w = demo_world and t = "[]" and ov = None
        and ?w1.0 = "snd (multipart_branch demo_env demo_world ?m)"] hm bm
    by (simp add: dm)
  from f c1 fm c2 show ?thesis by blast
qed

text \<open>For the JSON request with an empty \<open>txt\<close> file the extraction yields the empty
  string, and the raw body, the JSON document itself, is what is analyzed.\<close>

theorem file_shape_raw_body_counterexample:
  "calls (snd (redtape_reducer demo_env demo_world
        (json_request [(''file'', JStr []), (''file_type'', JStr ''txt'')] empty_file_body)))
     = [B64Decode, ExtractFile ''/tmp/tmpa.txt'', Analyze empty_file_body None]"
  by code_simp

text \<open>
  C9. The base64 branch of a JSON object is taken exactly when both keys \<open>file\<close> and
  \<open>file_type\<close> are present. With exactly one of them, and \<open>text\<close> absent or blank,
  nothing is decoded or extracted and the state is unchanged; the grievance text is
  the raw body decoded as UTF-8 and trimmed (empty when the decoding fails).
\<close>

theorem json_single_file_key_falls_through:
  "json_has_file (JObj kvs) = Inr (map_of kvs ''file'' \<noteq> None \<and> map_of kvs ''file_type'' \<noteq> None)
   \<and> (is_json req \<and> get_json req = Some (JObj kvs) \<and>
        (map_of kvs ''text'' = None \<or> (\<exists>t. map_of kvs ''text'' = Some (JStr t) \<and> strip t = [])) \<and>
        (map_of kvs ''file'' = None) \<noteq> (map_of kvs ''file_type'' = None) \<longrightarrow>
          resolve_shape env w req = (Next ([], None), w)
          \<and> handle_post env w req =
              analyze_and_respond env w
                (case utf8_decode env (data req) of Inl e \<Rightarrow> [] | Inr decoded \<Rightarrow> strip decoded)
                None)"
proof (intro conjI impI)
  show "json_has_file (JObj kvs) = Inr (map_of kvs ''file'' \<noteq> None \<and> map_of kvs ''file_type'' \<noteq> None)"
    by (rule json_has_file_obj)
next
  assume a: "is_json req \<and> get_json req = Some (JObj kvs) \<and>
        (map_of kvs ''text'' = None \<or> (\<exists>t. map_of kvs ''text'' = Some (JStr t) \<and> strip t = [])) \<and>
        (map_of kvs ''file'' = None) \<noteq> (map_of kvs ''file_type'' = None)"
  then have tr: "truthy (JObj kvs)"
    by (cases kvs) auto
  from a have tx: "json_text (JObj kvs) = Inr None"
    by (auto simp: json_text_obj json_text_obj_absent)
  from a have hf: "json_has_file (JObj kvs) = Inr False"
    by (auto simp: json_has_file_obj)
  show r: "resolve_shape env w req = (Next ([], None), w)"
    using a tr by (simp add: resolve_shape_def tx hf)
  show "handle_post env w req =
      analyze_and_respond env w
        (case utf8_decode env (data req) of Inl e \<Rightarrow> [] | Inr decoded \<Rightarrow> strip decoded) None"
    by (simp add: handle_post_def r raw_body_fallback_empty)
qed

theorem json_single_file_key_falls_through_witness:
  "json_has_file (JObj [(''file'', JStr ''aGVsbG8='')]) = Inr False
   \<and> resolve_shape demo_env demo_world (json_request [(''file'', JStr ''aGVsbG8='')] lone_file_body)
     = (Next ([], None), demo_world)
   \<and> handle_post demo_env demo_world (json_request [(''file'', JStr ''aGVsbG8='')] lone_file_body)
     = analyze_and_respond demo_env demo_world lone_file_body None"
proof -
  let ?kvs = "[(''file'', JStr ''aGVsbG8='')]"
  let ?r = "json_request ?kvs lone_file_body"
  have h: "is_json ?r" "get_json ?r = Some (JObj ?kvs)" "map_of ?kvs ''text'' = None"
    "(map_of ?kvs ''file'' = None) \<noteq> (map_of ?kvs ''file_type'' = None)"
    by (simp_all add: json_request_def)
  have d: "(case utf8_decode demo_env (data ?r) of Inl e \<Rightarrow> [] | Inr decoded \<Rightarrow> strip decoded)
      = lone_file_body"
    by code_simp
  note inst = json_single_file_key_falls_through [where kvs = ?kvs and req = ?r and env = demo_env
      and w = demo_world]
  have c0: "json_has_file (JObj ?kvs) = Inr False"
    using inst by simp
  have c1: "resolve_shape demo_env demo_world ?r = (Next ([], None), demo_world)"
    using inst h by blast
  have "handle_post demo_env demo_world ?r =
      analyze_and_respond demo_env demo_world
        (case utf8_decode demo_env (data ?r) of Inl e \<Rightarrow> [] | Inr decoded \<Rightarrow> strip decoded) None"
    using inst h by blast
  then have c2: "handle_post demo_env demo_world ?r =
      analyze_and_respond demo_env demo_world lone_file_body None"
    by (simp only: d)
  from c0 c1 c2 show ?thesis by blast
qed

subsection \<open>Images without text\<close>

lemma extract_content_override:
  "extract_content env w text_exts ext p = (Inr (g, Some ov), w') \<Longrightarrow> g = ''No text provided''"
  by (auto simp: extract_content_def Let_def split: if_splits sum.splits)

lemma extract_then_remove_override:
  "extract_then_remove env w text_exts ext p = (Inr (g, Some ov), w') \<Longrightarrow> g = ''No text provided''"
  by (auto simp: extract_then_remove_def split: prod.splits sum.splits
      dest: extract_content_override)

lemma json_file_branch_override:
  "json_file_branch env w d = (Inr (g, Some ov), w') \<Longrightarrow> g = ''No text provided''"
  by (auto simp: json_file_branch_def Let_def split: prod.splits sum.splits
      dest: extract_then_remove_override)

lemma multipart_branch_override:
  "multipart_branch env w req = (Inr (g, Some ov), w') \<Longrightarrow> g = ''No text provided''"
  by (auto simp: multipart_branch_def Let_def split: prod.splits sum.splits option.splits if_splits
      dest: extract_then_remove_override)

lemma resolve_shape_override:
  "resolve_shape env w req = (Next (g, Some ov), w') \<Longrightarrow> g = ''No text provided''"
  by (auto simp: resolve_shape_def split: prod.splits sum.splits option.splits if_splits bool.splits
      dest: json_file_branch_override multipart_branch_override)

lemma named_temporary_file_world:
  "named_temporary_file env w sfx = Inr (p, w1) \<Longrightarrow>
     w1 = w\<lparr>fs := (fs w)(p \<mapsto> []), tmp_count := Suc (tmp_count w)\<rparr>"
  by (auto simp: named_temporary_file_def Let_def split: if_splits)

lemma extract_content_blank_image:
  assumes "ext \<notin> set text_exts" "ext \<in> set [''jpg'', ''jpeg'', ''png'']"
    "fs w p = Some bytes" "ocr_readtext env bytes = Inr results"
    "strip (join_space results) = []"
  shows "extract_content env w text_exts ext p =
    (case classify_model env bytes of
       Inl e \<Rightarrow> (Inl e, log_call (ClassifyImage p) (log_call (ExtractImage p) w))
     | Inr label \<Rightarrow>
         (Inr (''No text provided'', Some (strip label)),
          log_call (ClassifyImage p) (log_call (ExtractImage p) w)))"
  using assms
  by (simp add: extract_content_def extract_text_from_image_def classify_image_with_gemini_def
      open_file_def log_call_def Let_def split: sum.splits)

lemma extract_then_remove_blank_image:
  assumes "ext \<notin> set text_exts" "ext \<in> set [''jpg'', ''jpeg'', ''png'']"
    "fs w p = Some bytes" "ocr_readtext env bytes = Inr results"
    "strip (join_space results) = []"
  shows "fst (extract_then_remove env w text_exts ext p) =
      (case classify_model env bytes of
         Inl e \<Rightarrow> Inl e
       | Inr label \<Rightarrow> Inr (''No text provided'', Some (strip label)))"
    and "calls (snd (extract_then_remove env w text_exts ext p)) =
      calls w @ [ExtractImage p, ClassifyImage p]"
  using assms(3)
  by (simp_all add: extract_then_remove_def extract_content_blank_image [OF assms]
      os_remove_def log_call_def split: sum.splits)

lemma not_text_ext:
  "ext \<in> set [''jpg'', ''jpeg'', ''png''] \<Longrightarrow>
     ext \<notin> set [''pdf'', ''docx'', ''doc'', ''txt''] \<and> ext \<notin> set [''pdf'', ''docx'', ''txt'']"
  by auto

lemma json_file_branch_blank_image:
  assumes f: "map_of kvs ''file'' = Some (JStr f)"
    and ft: "map_of kvs ''file_type'' = Some (JStr ft)"
    and b: "b64decode env f = Inr bytes"
    and img: "lower ft \<in> set [''jpg'', ''jpeg'', ''png'']"
    and tmp: "named_temporary_file env (log_call B64Decode w) (CHR ''.'' # lower ft) = Inr (p, w1)"
    and ocr: "ocr_readtext env bytes = Inr results"
    and blank: "strip (join_space results) = []"
  shows "fst (json_file_branch env w (JObj kvs)) =
      (case classify_model env bytes of
         Inl e \<Rightarrow> Inl e
       | Inr label \<Rightarrow> Inr (''No text provided'', Some (strip label)))"
    and "calls (snd (json_file_branch env w (JObj kvs))) =
      calls w @ [B64Decode, ExtractImage p, ClassifyImage p]"
proof -
  let ?w2 = "write_file p bytes w1"
  have w1: "w1 = (log_call B64Decode w)\<lparr>fs := (fs (log_call B64Decode w))(p \<mapsto> []),
      tmp_count := Suc (tmp_count (log_call B64Decode w))\<rparr>"
    by (rule named_temporary_file_world [OF tmp])
  have fsw: "fs ?w2 p = Some bytes" and cw: "calls ?w2 = calls w @ [B64Decode]"
    by (simp_all add: w1 write_file_def log_call_def)
  have j: "json_file_branch env w (JObj kvs) =
      extract_then_remove env ?w2 [''pdf'', ''docx'', ''doc'', ''txt''] (lower ft) p"
    by (simp add: json_file_branch_def json_b64decode_def f ft b tmp Let_def)
  note nt = not_text_ext [OF img, THEN conjunct1]
  show "fst (json_file_branch env w (JObj kvs)) =
      (case classify_model env bytes of
         Inl e \<Rightarrow> Inl e
       | Inr label \<Rightarrow> Inr (''No text provided'', Some (strip label)))"
    unfolding j by (rule extract_then_remove_blank_image(1) [OF nt img fsw ocr blank])
  show "calls (snd (json_file_branch env w (JObj kvs))) =
      calls w @ [B64Decode, ExtractImage p, ClassifyImage p]"
    unfolding j extract_then_remove_blank_image(2) [OF nt img fsw ocr blank] cw by simp
qed

lemma multipart_branch_blank_image:
  assumes up: "map_of (files req) ''file'' = Some up"
    and name: "filename up \<noteq> []"
    and img: "lower (split_dot_last (filename up)) \<in> set [''jpg'', ''jpeg'', ''png'']"
    and tmp: "named_temporary_file env w (splitext_ext (filename up)) = Inr (p, w1)"
    and ocr: "ocr_readtext env (content up) = Inr results"
    and blank: "strip (join_space results) = []"
  shows "fst (multipart_branch env w req) =
      (case classify_model env (content up) of
         Inl e \<Rightarrow> Inl e
       | Inr label \<Rightarrow> Inr (''No text provided'', Some (strip label)))"
    and "calls (snd (multipart_branch env w req)) =
      calls w @ [ExtractImage p, ClassifyImage p]"
proof -
  let ?w2 = "write_file p (content up) w1"
  have w1: "w1 = w\<lparr>fs := (fs w)(p \<mapsto> []), tmp_count := Suc (tmp_count w)\<rparr>"
    by (rule named_temporary_file_world [OF tmp])
  have fsw: "fs ?w2 p = Some (content up)" and cw: "calls ?w2 = calls w"
    by (simp_all add: w1 write_file_def)
  have j: "multipart_branch env w req =
      extract_then_remove env ?w2 [''pdf'', ''docx'', ''txt'']
        (lower (split_dot_last (filename up))) p"
    by (simp add: multipart_branch_def up name tmp Let_def)
  note nt = not_text_ext [OF img, THEN conjunct2]
  show "fst (multipart_branch env w req) =
      (case classify_model env (content up) of
         Inl e \<Rightarrow> Inl e
       | Inr label \<Rightarrow> Inr (''No text provided'', Some (strip label)))"
    unfolding j by (rule extract_then_remove_blank_image(1) [OF nt img fsw ocr blank])
  show "calls (snd (multipart_branch env w req)) = calls w @ [ExtractImage p, ClassifyImage p]"
    unfolding j extract_then_remove_blank_image(2) [OF nt img fsw ocr blank] cw by simp
qed

lemma resolve_shape_json_file:
  assumes "is_json req" "get_json req = Some (JObj kvs)" "json_text (JObj kvs) = Inr None"
    "map_of kvs ''file'' = Some f" "map_of kvs ''file_type'' = Some ft"
  shows "fst (resolve_shape env w req) =
      (case fst (json_file_branch env w (JObj kvs)) of Inl e \<Rightarrow> Raise e | Inr r \<Rightarrow> Next r)"
    and "snd (resolve_shape env w req) = snd (json_file_branch env w (JObj kvs))"
  using assms map_of_truthy [OF assms(4)]
  by (simp_all add: resolve_shape_def json_has_file_obj split: prod.splits sum.splits)

lemma resolve_shape_multipart:
  assumes "\<not> is_json req" "map_of (files req) ''file'' = Some up"
  shows "fst (resolve_shape env w req) =
      (case fst (multipart_branch env w req) of Inl e \<Rightarrow> Raise e | Inr r \<Rightarrow> Next r)"
    and "snd (resolve_shape env w req) = snd (multipart_branch env w req)"
proof -
  from assms(2) have "files req \<noteq> []" by auto
  with assms(1) show "fst (resolve_shape env w req) =
      (case fst (multipart_branch env w req) of Inl e \<Rightarrow> Raise e | Inr r \<Rightarrow> Next r)"
    and "snd (resolve_shape env w req) = snd (multipart_branch env w req)"
    by (simp_all add: resolve_shape_def split: prod.splits sum.splits)
qed

lemma calls_redtape_reducer:
  "http_method req = ''POST'' \<Longrightarrow>
   calls (snd (redtape_reducer env w req)) =
     (case fst (resolve_shape env w req) of
        Raise e \<Rightarrow> calls (snd (resolve_shape env w req))
      | Return r \<Rightarrow> calls (snd (resolve_shape env w req))
      | Next (g, ov) \<Rightarrow>
          if raw_body_fallback env req g = [] then calls (snd (resolve_shape env w req))
          else calls (snd (resolve_shape env w req)) @ [Analyze (raw_body_fallback env req g) ov])"
  by (simp add: snd_redtape_reducer handle_post_def snd_analyze_and_respond log_call_def
      split: prod.splits flow.splits)

lemma fst_redtape_reducer_raise:
  assumes "http_method req = ''POST''" "fst (resolve_shape env w req) = Raise e"
  shows "fst (redtape_reducer env w req) = Response (ErrorStr e) 500"
proof -
  obtain x w1 where rs: "resolve_shape env w req = (x, w1)"
    by (cases "resolve_shape env w req")
  with assms(2) have "x = Raise e" by simp
  with assms(1) rs show ?thesis
    by (simp add: redtape_reducer_def handle_post_def)
qed

lemma blank_image_calls:
  assumes post: "http_method req = ''POST''"
    and r: "fst (resolve_shape env w req) =
      (case c of Inl e \<Rightarrow> Raise e | Inr label \<Rightarrow> Next (''No text provided'', Some (strip label)))"
    and l: "calls (snd (resolve_shape env w req)) = calls w @ evs"
  shows "calls (snd (redtape_reducer env w req)) =
      calls w @ evs @
        (case c of Inl e \<Rightarrow> []
         | Inr label \<Rightarrow> [Analyze ''No text provided'' (Some (strip label))])"
    and "\<forall>e. c = Inl e \<longrightarrow> fst (redtape_reducer env w req) = Response (ErrorStr e) 500"
proof -
  show "calls (snd (redtape_reducer env w req)) =
      calls w @ evs @
        (case c of Inl e \<Rightarrow> []
         | Inr label \<Rightarrow> [Analyze ''No text provided'' (Some (strip label))])"
    unfolding calls_redtape_reducer [OF post] r l
    by (cases c) (simp_all add: raw_body_fallback_def)
  show "\<forall>e. c = Inl e \<longrightarrow> fst (redtape_reducer env w req) = Response (ErrorStr e) 500"
    using fst_redtape_reducer_raise [OF post] r by simp
qed

text \<open>
  C4. A POST request carries an image (extension \<open>jpg\<close>, \<open>jpeg\<close> or \<open>png\<close>, in any
  case) as the base64 file of a JSON body without usable \<open>text\<close>, or as the multipart
  part \<open>file\<close>; the temporary file is created, and the OCR of the image yields a text
  that is empty after trimming. Then, in both shapes, the handler calls the OCR and
  then the classifier on the temporary file. When the classifier returns, the text is
  the sentinel \<open>No text provided\<close>, the override is the trimmed label, and the analyzer
  is called with exactly these; when it raises, the analyzer is not called and the
  response is the 500 of the outer handler. Whenever the shapes resolve with an
  override, the text is the sentinel, so it is not empty, the raw body does not
  replace it, and the handler analyzes the sentinel with that override.
\<close>

theorem ocr_empty_invokes_classifier:
  "(http_method req = ''POST'' \<and> is_json req \<and> get_json req = Some (JObj kvs) \<and>
      json_text (JObj kvs) = Inr None \<and>
      map_of kvs ''file'' = Some (JStr f) \<and> map_of kvs ''file_type'' = Some (JStr ft) \<and>
      b64decode env f = Inr bytes \<and> lower ft \<in> set [''jpg'', ''jpeg'', ''png''] \<and>
      named_temporary_file env (log_call B64Decode w) (CHR ''.'' # lower ft) = Inr (p, w1) \<and>
      ocr_readtext env bytes = Inr results \<and> strip (join_space results) = [] \<longrightarrow>
        fst (resolve_shape env w req) =
          (case classify_model env bytes of
             Inl e \<Rightarrow> Raise e
           | Inr label \<Rightarrow> Next (''No text provided'', Some (strip label)))
        \<and> calls (snd (redtape_reducer env w req)) =
            calls w @ [B64Decode, ExtractImage p, ClassifyImage p] @
              (case classify_model env bytes of
                 Inl e \<Rightarrow> []
               | Inr label \<Rightarrow> [Analyze ''No text provided'' (Some (strip label))])
        \<and> (\<forall>e. classify_model env bytes = Inl e \<longrightarrow>
              fst (redtape_reducer env w req) = Response (ErrorStr e) 500))
   \<and> (http_method req = ''POST'' \<and> \<not> is_json req \<and> map_of (files req) ''file'' = Some up \<and>
      filename up \<noteq> [] \<and>
      lower (split_dot_last (filename up)) \<in> set [''jpg'', ''jpeg'', ''png''] \<and>
      named_temporary_file env w (splitext_ext (filename up)) = Inr (p, w1) \<and>
      ocr_readtext env (content up) = Inr results \<and> strip (join_space results) = [] \<longrightarrow>
        fst (resolve_shape env w req) =
          (case classify_model env (content up) of
             Inl e \<Rightarrow> Raise e
           | Inr label \<Rightarrow> Next (''No text provided'', Some (strip label)))
        \<and> calls (snd (redtape_reducer env w req)) =
            calls w @ [ExtractImage p, ClassifyImage p] @
              (case classify_model env (content up) of
                 Inl e \<Rightarrow> []
               | Inr label \<Rightarrow> [Analyze ''No text provided'' (Some (strip label))])
        \<and> (\<forall>e. classify_model env (content up) = Inl e \<longrightarrow>
              fst (redtape_reducer env w req) = Response (ErrorStr e) 500))
   \<and> (resolve_shape env w req = (Next (g, Some ov), w') \<longrightarrow>
        g = ''No text provided'' \<and> g \<noteq> [] \<and> raw_body_fallback env req g = ''No text provided''
        \<and> handle_post env w req = analyze_and_respond env w' ''No text provided'' (Some ov))"
proof (intro conjI)
  show "http_method req = ''POST'' \<and> is_json req \<and> get_json req = Some (JObj kvs) \<and>
      json_text (JObj kvs) = Inr None \<and>
      map_of kvs ''file'' = Some (JStr f) \<and> map_of kvs ''file_type'' = Some (JStr ft) \<and>
      b64decode env f = Inr bytes \<and> lower ft \<in> set [''jpg'', ''jpeg'', ''png''] \<and>
      named_temporary_file env (log_call B64Decode w) (CHR ''.'' # lower ft) = Inr (p, w1) \<and>
      ocr_readtext env bytes = Inr results \<and> strip (join_space results) = [] \<longrightarrow>
        fst (resolve_shape env w req) =
          (case classify_model env bytes of
             Inl e \<Rightarrow> Raise e
           | Inr label \<Rightarrow> Next (''No text provided'', Some (strip label)))
        \<and> calls (snd (redtape_reducer env w req)) =
            calls w @ [B64Decode, ExtractImage p, ClassifyImage p] @
              (case classify_model env bytes of
                 Inl e \<Rightarrow> []
               | Inr label \<Rightarrow> [Analyze ''No text provided'' (Some (strip label))])
        \<and> (\<forall>e. classify_model env bytes = Inl e \<longrightarrow>
              fst (redtape_reducer env w req) = Response (ErrorStr e) 500)"
  proof (intro impI, elim conjE)
    assume post: "http_method req = ''POST''" and j: "is_json req"
      and d: "get_json req = Some (JObj kvs)" and t: "json_text (JObj kvs) = Inr None"
      and f: "map_of kvs ''file'' = Some (JStr f)" and ft: "map_of kvs ''file_type'' = Some (JStr ft)"
      and b: "b64decode env f = Inr bytes" and img: "lower ft \<in> set [''jpg'', ''jpeg'', ''png'']"
      and tmp: "named_temporary_file env (log_call B64Decode w) (CHR ''.'' # lower ft) = Inr (p, w1)"
      and ocr: "ocr_readtext env bytes = Inr results" and blank: "strip (join_space results) = []"
    note br = json_file_branch_blank_image [OF f ft b img tmp ocr blank]
    note rs = resolve_shape_json_file [OF j d t f ft]
    have r: "fst (resolve_shape env w req) =
        (case classify_model env bytes of
           Inl e \<Rightarrow> Raise e
         | Inr label \<Rightarrow> Next (''No text provided'', Some (strip label)))"
      unfolding rs(1) br(1) by (simp split: sum.splits)
    have l: "calls (snd (resolve_shape env w req)) =
        calls w @ [B64Decode, ExtractImage p, ClassifyImage p]"
      unfolding rs(2) by (rule br(2))
    from r blank_image_calls [OF post r l]
    show "fst (resolve_shape env w req) =
          (case classify_model env bytes of
             Inl e \<Rightarrow> Raise e
           | Inr label \<Rightarrow> Next (''No text provided'', Some (strip label)))
        \<and> calls (snd (redtape_reducer env w req)) =
            calls w @ [B64Decode, ExtractImage p, ClassifyImage p] @
              (case classify_model env bytes of
                 Inl e \<Rightarrow> []
               | Inr label \<Rightarrow> [Analyze ''No text provided'' (Some (strip label))])
        \<and> (\<forall>e. classify_model env bytes = Inl e \<longrightarrow>
              fst (redtape_reducer env w req) = Response (ErrorStr e) 500)"
      by blast
  qed
  show "http_method req = ''POST'' \<and> \<not> is_json req \<and> map_of (files req) ''file'' = Some up \<and>
      filename up \<noteq> [] \<and>
      lower (split_dot_last (filename up)) \<in> set [''jpg'', ''jpeg'', ''png''] \<and>
      named_temporary_file env w (splitext_ext (filename up)) = Inr (p, w1) \<and>
      ocr_readtext env (content up) = Inr results \<and> strip (join_space results) = [] \<longrightarrow>
        fst (resolve_shape env w req) =
          (case classify_model env (content up) of
             Inl e \<Rightarrow> Raise e
           | Inr label \<Rightarrow> Next (''No text provided'', Some (strip label)))
        \<and> calls (snd (redtape_reducer env w req)) =
            calls w @ [ExtractImage p, ClassifyImage p] @
              (case classify_model env (content up) of
                 Inl e \<Rightarrow> []
               | Inr label \<Rightarrow> [Analyze ''No text provided'' (Some (strip label))])
        \<and> (\<forall>e. classify_model env (content up) = Inl e \<longrightarrow>
              fst (redtape_reducer env w req) = Response (ErrorStr e) 500)"
  proof (intro impI, elim conjE)
    assume post: "http_method req = ''POST''" and j: "\<not> is_json req"
      and up: "map_of (files req) ''file'' = Some up" and name: "filename up \<noteq> []"
      and img: "lower (split_dot_last (filename up)) \<in> set [''jpg'', ''jpeg'', ''png'']"
      and tmp: "named_temporary_file env w (splitext_ext (filename up)) = Inr (p, w1)"
      and ocr: "ocr_readtext env (content up) = Inr results"
      and blank: "strip (join_space results) = []"
    note br = multipart_branch_blank_image [OF up name img tmp ocr blank]
    note rs = resolve_shape_multipart [OF j up]
    have r: "fst (resolve_shape env w req) =
        (case classify_model env (content up) of
           Inl e \<Rightarrow> Raise e
         | Inr label \<Rightarrow> Next (''No text provided'', Some (strip label)))"
      unfolding rs(1) br(1) by (simp split: sum.splits)
    have l: "calls (snd (resolve_shape env w req)) = calls w @ [ExtractImage p, ClassifyImage p]"
      unfolding rs(2) by (rule br(2))
    from r blank_image_calls [OF post r l]
    show "fst (resolve_shape env w req) =
          (case classify_model env (content up) of
             Inl e \<Rightarrow> Raise e
           | Inr label \<Rightarrow> Next (''No text provided'', Some (strip label)))
        \<and> calls (snd (redtape_reducer env w req)) =
            calls w @ [ExtractImage p, ClassifyImage p] @
              (case classify_model env (content up) of
                 Inl e \<Rightarrow> []
               | Inr label \<Rightarrow> [Analyze ''No text provided'' (Some (strip label))])
        \<and> (\<forall>e. classify_model env (content up) = Inl e \<longrightarrow>
              fst (redtape_reducer env w req) = Response (ErrorStr e) 500)"
      by blast
  qed
  show "resolve_shape env w req = (Next (g, Some ov), w') \<longrightarrow>
        g = ''No text provided'' \<and> g \<noteq> [] \<and> raw_body_fallback env req g = ''No text provided''
        \<and> handle_post env w req = analyze_and_respond env w' ''No text provided'' (Some ov)"
  proof
    assume rs: "resolve_shape env w req = (Next (g, Some ov), w')"
    then have g: "g = ''No text provided''"
      by (rule resolve_shape_override)
    have fb: "raw_body_fallback env req g = ''No text provided''"
      by (simp add: g raw_body_fallback_def)
    have "handle_post env w req = analyze_and_respond env w' ''No text provided'' (Some ov)"
      by (simp add: handle_post_def rs fb)
    with g fb show "g = ''No text provided'' \<and> g \<noteq> [] \<and>
        raw_body_fallback env req g = ''No text provided''
        \<and> handle_post env w req = analyze_and_respond env w' ''No text provided'' (Some ov)"
      by simp
  qed
qed

theorem ocr_empty_invokes_classifier_witness:
  "fst (resolve_shape demo_env demo_world blank_image_request)
       = Next (''No text provided'', Some ''flood / water logging'')
   \<and> calls (snd (redtape_reducer demo_env demo_world blank_image_request))
       = [B64Decode, ExtractImage ''/tmp/tmpa.png'', ClassifyImage ''/tmp/tmpa.png'',
          Analyze ''No text provided'' (Some ''flood / water logging'')]
   \<and> fst (resolve_shape demo_env demo_world (multipart_request ''pic.PNG'' ''blank''))
       = Next (''No text provided'', Some ''flood / water logging'')
   \<and> calls (snd (redtape_reducer demo_env demo_world (multipart_request ''pic.PNG'' ''blank'')))
       = [ExtractImage ''/tmp/tmpa.PNG'', ClassifyImage ''/tmp/tmpa.PNG'',
          Analyze ''No text provided'' (Some ''flood / water logging'')]
   \<and> raw_body_fallback demo_env (multipart_request ''pic.PNG'' ''blank'') ''No text provided''
       = ''No text provided''"
proof -
  let ?j = "blank_image_request"
  let ?kvs = "[(''file'', JStr ''Ymxhbms=''), (''file_type'', JStr ''PNG'')]"
  let ?m = "multipart_request ''pic.PNG'' ''blank''"
  let ?up = "\<lparr> filename = ''pic.PNG'', content = ''blank'' \<rparr>"
  let ?tj = "named_temporary_file demo_env (log_call B64Decode demo_world) (CHR ''.'' # lower ''PNG'')"
  let ?tm = "named_temporary_file demo_env demo_world (splitext_ext (filename ?up))"
  let ?wj = "snd (projr ?tj)"
  let ?wm = "snd (projr ?tm)"
  have hj: "http_method ?j = ''POST''" "is_json ?j" "get_json ?j = Some (JObj ?kvs)"
    "json_text (JObj ?kvs) = Inr None"
    "map_of ?kvs ''file'' = Some (JStr ''Ymxhbms='')"
    "map_of ?kvs ''file_type'' = Some (JStr ''PNG'')"
    "b64decode demo_env ''Ymxhbms='' = Inr ''blank''"
    "lower ''PNG'' \<in> set [''jpg'', ''jpeg'', ''png'']"
    "ocr_readtext demo_env ''blank'' = Inr []"
    "strip (join_space []) = []"
    by code_simp+
  have "\<not> isl ?tj" "fst (projr ?tj) = ''/tmp/tmpa.png''"
    by code_simp+
  then have tj: "?tj = Inr (''/tmp/tmpa.png'', ?wj)"
    by (cases ?tj) auto
  have cl: "classify_model demo_env ''blank'' = Inr ''flood / water logging''"
    "strip ''flood / water logging'' = ''flood / water logging''"
    "calls demo_world = []"
    by code_simp+
  note ij = ocr_empty_invokes_classifier [where req = ?j and kvs = ?kvs and f = "''Ymxhbms=''"
      and ft = "''PNG''" and env = demo_env and bytes = "''blank''" and w = demo_world
      and p = "''/tmp/tmpa.png''" and ?w1.0 = ?wj and results = "[]", THEN conjunct1]
  have j1: "fst (resolve_shape demo_env demo_world ?j)
       = Next (''No text provided'', Some ''flood / water logging'')"
    using ij hj tj by (simp only: cl sum.case simp_thms)
  have j2: "calls (snd (redtape_reducer demo_env demo_world ?j))
       = [B64Decode, ExtractImage ''/tmp/tmpa.png'', ClassifyImage ''/tmp/tmpa.png'',
          Analyze ''No text provided'' (Some ''flood / water logging'')]"
    using ij hj tj by (simp only: cl sum.case simp_thms append.simps)
  have hm: "http_method ?m = ''POST''" "\<not> is_json ?m" "map_of (files ?m) ''file'' = Some ?up"
    "filename ?up \<noteq> []"
    "lower (split_dot_last (filename ?up)) \<in> set [''jpg'', ''jpeg'', ''png'']"
    "ocr_readtext demo_env (content ?up) = Inr []"
    by code_simp+
  have "\<not> isl ?tm" "fst (projr ?tm) = ''/tmp/tmpa.PNG''"
    by code_simp+
  then have tm: "?tm = Inr (''/tmp/tmpa.PNG'', ?wm)"
    by (cases ?tm) auto
  have cm: "classify_model demo_env (content ?up) = Inr ''flood / water logging''"
    by code_simp
  note im = ocr_empty_invokes_classifier [where req = ?m and up = ?up and env = demo_env
      and w = demo_world and p = "''/tmp/tmpa.PNG''" and ?w1.0 = ?wm and results = "[]",
      THEN conjunct2, THEN conjunct1]
  have m1: "fst (resolve_shape demo_env demo_world ?m)
       = Next (''No text provided'', Some ''flood / water logging'')"
    using im hm tm hj(10) by (simp only: cm cl sum.case simp_thms)
  have m2: "calls (snd (redtape_reducer demo_env demo_world ?m))
       = [ExtractImage ''/tmp/tmpa.PNG'', ClassifyImage ''/tmp/tmpa.PNG'',
          Analyze ''No text provided'' (Some ''flood / water logging'')]"
    using im hm tm hj(10) by (simp only: cm cl sum.case simp_thms append.simps)
  have "resolve_shape demo_env demo_world ?m =
      (Next (''No text provided'', Some ''flood / water logging''),
       snd (resolve_shape demo_env demo_world ?m))"
    using m1 by (simp add: prod_eq_iff)
  from ocr_empty_invokes_classifier [where env = demo_env and w = demo_world and req = ?m,
      THEN conjunct2, THEN conjunct2, rule_format, OF this]
  have m3: "raw_body_fallback demo_env ?m ''No text provided'' = ''No text provided''"
    by blast
  from j1 j2 m1 m2 m3 show ?thesis by blast
qed

subsection \<open>Errors\<close>

lemma handle_post_status:
  "handle_post env w req = (Inr (Response b st), w') \<Longrightarrow> st = 200 \<or> st = 400"
  by (auto simp: handle_post_def analyze_and_respond_def resolve_shape_def Let_def
      split: prod.splits sum.splits option.splits if_splits bool.splits flow.splits)

text \<open>
  C6 (as amended). When the sanitized reply of the model fails to parse, the response
  has status 200 and carries the marker, the sanitized text and the parse exception.
  An exception of the analysis, or of the shape resolution (decoding, type errors,
  extraction, OCR, classification), is caught by the outer handler and answered with
  status 500 and the exception's message only; every response with status 500 is of
  that form. One more exception is handled locally: a raw body that is not valid UTF-8
  is ignored, and the text stays as it was.
\<close>

theorem parse_failure_payload:
  "(http_method req = ''POST'' \<and> resolve_shape env w req = (Next (t, ov), w1) \<and>
      raw_body_fallback env req t = g \<and> g \<noteq> [] \<and>
      analyze_grievance env g ''text'' ov = Inr result \<and>
      json_loads env (sanitize result) = Inl e \<longrightarrow>
        fst (redtape_reducer env w req) = Response (ParseFailed (sanitize result) e) 200)
   \<and> (http_method req = ''POST'' \<and> resolve_shape env w req = (Next (t, ov), w1) \<and>
      raw_body_fallback env req t = g \<and> g \<noteq> [] \<and>
      analyze_grievance env g ''text'' ov = Inl e \<longrightarrow>
        fst (redtape_reducer env w req) = Response (ErrorStr e) 500)
   \<and> (http_method req = ''POST'' \<and> resolve_shape env w req = (Raise e, w1) \<longrightarrow>
        redtape_reducer env w req = (Response (ErrorStr e) 500, w1))
   \<and> (utf8_decode env (data req) = Inl e \<longrightarrow> raw_body_fallback env req t = t)
   \<and> (fst (redtape_reducer env w req) = Response b 500 \<longrightarrow> (\<exists>x. b = ErrorStr x))"
proof (intro conjI impI)
  assume "http_method req = ''POST'' \<and> resolve_shape env w req = (Next (t, ov), w1) \<and>
      raw_body_fallback env req t = g \<and> g \<noteq> [] \<and>
      analyze_grievance env g ''text'' ov = Inr result \<and>
      json_loads env (sanitize result) = Inl e"
  then show "fst (redtape_reducer env w req) = Response (ParseFailed (sanitize result) e) 200"
    by (simp add: redtape_reducer_def handle_post_def analyze_and_respond_def Let_def)
next
  assume "http_method req = ''POST'' \<and> resolve_shape env w req = (Next (t, ov), w1) \<and>
      raw_body_fallback env req t = g \<and> g \<noteq> [] \<and>
      analyze_grievance env g ''text'' ov = Inl e"
  then show "fst (redtape_reducer env w req) = Response (ErrorStr e) 500"
    by (simp add: redtape_reducer_def handle_post_def analyze_and_respond_def Let_def)
next
  assume "http_method req = ''POST'' \<and> resolve_shape env w req = (Raise e, w1)"
  then show "redtape_reducer env w req = (Response (ErrorStr e) 500, w1)"
    by (simp add: redtape_reducer_def handle_post_def)
next
  assume "utf8_decode env (data req) = Inl e"
  then show "raw_body_fallback env req t = t"
    by (simp add: raw_body_fallback_def)
next
  assume a: "fst (redtape_reducer env w req) = Response b 500"
  show "\<exists>x. b = ErrorStr x"
  proof (cases "handle_post env w req")
    case (Pair res w')
    show ?thesis
    proof (cases res)
      case (Inl x)
      with a Pair show ?thesis
        by (auto simp: redtape_reducer_def split: if_splits)
    next
      case (Inr r)
      obtain b' st where r: "r = Response b' st" by (cases r)
      from handle_post_status [of env w req b' st w'] Pair Inr r
      have "st = 200 \<or> st = 400" by simp
      with a Pair Inr r show ?thesis
        by (auto simp: redtape_reducer_def split: if_splits)
    qed
  qed
qed

theorem parse_failure_payload_witness:
  "json_loads demo_env (sanitize ''Sorry, I cannot help.'')
     = Inl (Raised ''Expecting value: line 1 column 1 (char 0)'')
   \<and> fst (redtape_reducer demo_env demo_world (raw_request ''prose''))
     = Response (ParseFailed ''Sorry, I cannot help.''
         (Raised ''Expecting value: line 1 column 1 (char 0)'')) 200
   \<and> fst (redtape_reducer demo_env demo_world (raw_request ''down''))
     = Response (ErrorStr (Raised ''503 Service Unavailable'')) 500
   \<and> redtape_reducer demo_env demo_world number_request
     = (Response (ErrorStr TypeError) 500, demo_world)
   \<and> raw_body_fallback demo_env (raw_request [CHR 0xFF]) [] = []"
proof -
  have p: "http_method (raw_request b) = ''POST''"
    "resolve_shape demo_env demo_world (raw_request b) = (Next ([], None), demo_world)" for b
    by (simp_all add: raw_request_def resolve_shape_def)
  have s: "sanitize ''Sorry, I cannot help.'' = ''Sorry, I cannot help.''"
    by code_simp
  have f1: "raw_body_fallback demo_env (raw_request ''prose'') [] = ''prose''"
    by code_simp
  have a1: "analyze_grievance demo_env ''prose'' ''text'' None = Inr ''Sorry, I cannot help.''"
    by code_simp
  have j: "json_loads demo_env (sanitize ''Sorry, I cannot help.'')
      = Inl (Raised ''Expecting value: line 1 column 1 (char 0)'')"
    by code_simp
  have c1: "fst (redtape_reducer demo_env demo_world (raw_request ''prose''))
      = Response (ParseFailed ''Sorry, I cannot help.''
          (Raised ''Expecting value: line 1 column 1 (char 0)'')) 200"
    using parse_failure_payload [where env = demo_env and w = demo_world
        and req = "raw_request ''prose''" and t = "[]" and ov = None and ?w1.0 = demo_world
        and g = "''prose''" and result = "''Sorry, I cannot help.''"
        and e = "Raised ''Expecting value: line 1 column 1 (char 0)''"] p f1 a1 j
    by (simp add: s)
  have f2: "raw_body_fallback demo_env (raw_request ''down'') [] = ''down''"
    by code_simp
  have a2: "analyze_grievance demo_env ''down'' ''text'' None = Inl (Raised ''503 Service Unavailable'')"
    by code_simp
  have c2: "fst (redtape_reducer demo_env demo_world (raw_request ''down''))
      = Response (ErrorStr (Raised ''503 Service Unavailable'')) 500"
    using parse_failure_payload [where env = demo_env and w = demo_world
        and req = "raw_request ''down''" and t = "[]" and ov = None and ?w1.0 = demo_world
        and g = "''down''" and e = "Raised ''503 Service Unavailable''"] p f2 a2
    by simp
  have n: "http_method number_request = ''POST''"
    "resolve_shape demo_env demo_world number_request = (Raise TypeError, demo_world)"
    by (simp_all add: number_request_def resolve_shape_def json_text_def)
  have c3: "redtape_reducer demo_env demo_world number_request
      = (Response (ErrorStr TypeError) 500, demo_world)"
    using parse_failure_payload [where env = demo_env and w = demo_world
        and req = number_request and e = TypeError and ?w1.0 = demo_world] n
    by blast
  have u: "utf8_decode demo_env (data (raw_request [CHR 0xFF])) = Inl (Raised ''invalid start byte'')"
    by code_simp
  have c4: "raw_body_fallback demo_env (raw_request [CHR 0xFF]) [] = []"
    using parse_failure_payload [where env = demo_env and req = "raw_request [CHR 0xFF]"
        and e = "Raised ''invalid start byte''" and t = "[]"] u
    by blast
  from j c1 c2 c3 c4 show ?thesis by blast
qed

text \<open>The raw body \<open>0xFF\<close> is not valid UTF-8: the decoding raises, and the response
  is the 400 for a missing input, not a 500.\<close>

theorem raw_body_decode_error_counterexample:
  "utf8_decode demo_env [CHR 0xFF] = Inl (Raised ''invalid start byte'')
   \<and> fst (redtape_reducer demo_env demo_world (raw_request [CHR 0xFF]))
     = Response (ErrorLiteral ''No text or file provided'') 400"
  by code_simp

subsection \<open>Routing by extension\<close>

text \<open>
  C8. The claim is that in both file shapes the extensions pdf, docx, doc and txt go
  to the text extractor. The list of the multipart shape lacks \<open>doc\<close>: for the upload
  \<open>complaint.doc\<close> no extractor is called and the request ends with the 400 for a
  missing input, while the JSON shape with \<open>file_type\<close> \<open>doc\<close> calls the text
  extractor.
\<close>

theorem multipart_doc_not_extracted:
  "calls (snd (redtape_reducer demo_env demo_world (multipart_request ''complaint.doc'' ''hello''))) = []
   \<and> fst (redtape_reducer demo_env demo_world (multipart_request ''complaint.doc'' ''hello''))
     = Response (ErrorLiteral ''No text or file provided'') 400
   \<and> calls (snd (redtape_reducer demo_env demo_world
        (json_request [(''file'', JStr ''aGVsbG8=''), (''file_type'', JStr ''doc'')] [])))
     = [B64Decode, ExtractFile ''/tmp/tmpa.doc'']"
  by code_simp

end
